theory Spec2Isabelle
  imports Main "HOL-Library.Multiset"
begin

section \<open>Python values used by the scheduling core\<close>

text \<open>
  The exceptions the modelled code can raise. \<open>Exception\<close> is the plain
  \<^verbatim>\<open>raise Exception("...")\<close> of the tasks, with its message.
\<close>

datatype py_error = ValueError | OverflowError | IndexError | TypeError | Exception string

text \<open>
  A value read from a JSON dictionary and then parsed from text
  (\<^verbatim>\<open>map(int, time_str.split(":"))\<close>, \<^verbatim>\<open>datetime.fromisoformat\<close>):
  the key is absent, or the text parses to a value, or the parser raises.
\<close>

datatype 'a field = Absent | Parsed 'a | Malformed

subsection \<open>Naive \<^verbatim>\<open>datetime\<close> values\<close>

record date_time =
  year :: int
  month :: int
  day :: int
  hour :: int
  minute :: int
  second :: int
  microsecond :: int

definition is_leap :: "int \<Rightarrow> bool" where
  "is_leap y = (y mod 4 = 0 \<and> (y mod 100 \<noteq> 0 \<or> y mod 400 = 0))"

definition days_in_month :: "int \<Rightarrow> int \<Rightarrow> int" where
  "days_in_month y m =
     (if m = 2 then (if is_leap y then 29 else 28)
      else if m = 4 \<or> m = 6 \<or> m = 9 \<or> m = 11 then 30 else 31)"

definition days_before_year :: "int \<Rightarrow> int" where
  "days_before_year y = (y - 1) * 365 + (y - 1) div 4 - (y - 1) div 100 + (y - 1) div 400"

definition days_before_month :: "int \<Rightarrow> int \<Rightarrow> int" where
  "days_before_month y m =
     (if m = 1 then 0 else if m = 2 then 31 else if m = 3 then 59 else if m = 4 then 90
      else if m = 5 then 120 else if m = 6 then 151 else if m = 7 then 181
      else if m = 8 then 212 else if m = 9 then 243 else if m = 10 then 273
      else if m = 11 then 304 else 334)
     + (if m > 2 \<and> is_leap y then 1 else 0)"

definition toordinal :: "date_time \<Rightarrow> int" where
  "toordinal dt = days_before_year (year dt) + days_before_month (year dt) (month dt) + day dt"

text \<open>\<^verbatim>\<open>datetime.weekday()\<close>: Monday is 0 and Sunday is 6.\<close>

definition weekday :: "date_time \<Rightarrow> int" where
  "weekday dt = (toordinal dt + 6) mod 7"

definition valid_date :: "int \<Rightarrow> int \<Rightarrow> int \<Rightarrow> bool" where
  "valid_date y m d = (1 \<le> y \<and> y \<le> 9999 \<and> 1 \<le> m \<and> m \<le> 12 \<and> 1 \<le> d \<and> d \<le> days_in_month y m)"

definition valid_time :: "int \<Rightarrow> int \<Rightarrow> int \<Rightarrow> int \<Rightarrow> bool" where
  "valid_time h mi s us =
     (0 \<le> h \<and> h \<le> 23 \<and> 0 \<le> mi \<and> mi \<le> 59 \<and> 0 \<le> s \<and> s \<le> 59 \<and> 0 \<le> us \<and> us \<le> 999999)"

definition valid_dt :: "date_time \<Rightarrow> bool" where
  "valid_dt dt = (valid_date (year dt) (month dt) (day dt)
                  \<and> valid_time (hour dt) (minute dt) (second dt) (microsecond dt))"

text \<open>The constructor checks its fields and raises \<^verbatim>\<open>ValueError\<close>.\<close>

definition mk_datetime :: "int \<Rightarrow> int \<Rightarrow> int \<Rightarrow> int \<Rightarrow> int \<Rightarrow> int \<Rightarrow> int \<Rightarrow> py_error + date_time" where
  "mk_datetime y m d h mi s us =
     (if valid_date y m d \<and> valid_time h mi s us
      then Inr \<lparr>year = y, month = m, day = d, hour = h, minute = mi, second = s, microsecond = us\<rparr>
      else Inl ValueError)"

text \<open>
  \<^verbatim>\<open>dt.replace(year=, month=, day=, hour=, minute=, second=, microsecond=)\<close>:
  a keyword that is not given is \<open>None\<close> here and keeps the old field; the new value
  goes through the constructor.
\<close>

definition dt_replace ::
  "date_time \<Rightarrow> int option \<Rightarrow> int option \<Rightarrow> int option \<Rightarrow> int option \<Rightarrow> int option
     \<Rightarrow> int option \<Rightarrow> int option \<Rightarrow> py_error + date_time" where
  "dt_replace dt y m d h mi s us =
     mk_datetime (case y of None \<Rightarrow> year dt | Some v \<Rightarrow> v)
                 (case m of None \<Rightarrow> month dt | Some v \<Rightarrow> v)
                 (case d of None \<Rightarrow> day dt | Some v \<Rightarrow> v)
                 (case h of None \<Rightarrow> hour dt | Some v \<Rightarrow> v)
                 (case mi of None \<Rightarrow> minute dt | Some v \<Rightarrow> v)
                 (case s of None \<Rightarrow> second dt | Some v \<Rightarrow> v)
                 (case us of None \<Rightarrow> microsecond dt | Some v \<Rightarrow> v)"

text \<open>Comparison of naive datetimes: lexicographic on the seven fields.\<close>

definition dt_less :: "date_time \<Rightarrow> date_time \<Rightarrow> bool" where
  "dt_less a b =
     (year a < year b \<or> (year a = year b \<and>
     (month a < month b \<or> (month a = month b \<and>
     (day a < day b \<or> (day a = day b \<and>
     (hour a < hour b \<or> (hour a = hour b \<and>
     (minute a < minute b \<or> (minute a = minute b \<and>
     (second a < second b \<or> (second a = second b \<and>
      microsecond a < microsecond b))))))))))))"

definition dt_le :: "date_time \<Rightarrow> date_time \<Rightarrow> bool" where
  "dt_le a b = (dt_less a b \<or> a = b)"

text \<open>
  \<^verbatim>\<open>dt + timedelta(days=k)\<close> moves the date by \<open>k\<close> calendar days and keeps the
  time of day; a result outside the years 1 to 9999 raises \<^verbatim>\<open>OverflowError\<close>.
  The date is moved one day at a time; \<open>toordinal_next_day\<close> and
  \<open>toordinal_prev_day\<close> below relate the steps to the day number the library
  computes with.
\<close>

definition next_day :: "date_time \<Rightarrow> date_time" where
  "next_day dt =
     (if day dt < days_in_month (year dt) (month dt) then dt\<lparr>day := day dt + 1\<rparr>
      else if month dt < 12 then dt\<lparr>month := month dt + 1, day := 1\<rparr>
      else dt\<lparr>year := year dt + 1, month := 1, day := 1\<rparr>)"

definition prev_day :: "date_time \<Rightarrow> date_time" where
  "prev_day dt =
     (if 1 < day dt then dt\<lparr>day := day dt - 1\<rparr>
      else if 1 < month dt
        then dt\<lparr>month := month dt - 1, day := days_in_month (year dt) (month dt - 1)\<rparr>
      else dt\<lparr>year := year dt - 1, month := 12, day := 31\<rparr>)"

definition add_days :: "date_time \<Rightarrow> int \<Rightarrow> py_error + date_time" where
  "add_days dt k =
     (let r = (if 0 \<le> k then (next_day ^^ nat k) dt else (prev_day ^^ nat (- k)) dt)
      in if 1 \<le> year r \<and> year r \<le> 9999 then Inr r else Inl OverflowError)"

text \<open>\<^verbatim>\<open>dt + timedelta(hours=n)\<close> for \<open>n \<ge> 0\<close>: whole days carry into the date.\<close>

definition add_hours :: "date_time \<Rightarrow> int \<Rightarrow> py_error + date_time" where
  "add_hours dt n = add_days (dt\<lparr>hour := (hour dt + n) mod 24\<rparr>) ((hour dt + n) div 24)"

section \<open>Data model\<close>

text \<open>
  The JSON column \<^verbatim>\<open>schedule_data\<close>, by the keys the calculators read:
  \<^verbatim>\<open>"time"\<close> (text \<^verbatim>\<open>"HH:MM"\<close>, here the pair that
  \<^verbatim>\<open>map(int, time_str.split(":"))\<close> yields), \<^verbatim>\<open>"day_of_week"\<close>,
  \<^verbatim>\<open>"day_of_month"\<close> and \<^verbatim>\<open>"datetime"\<close> (ISO text). Every other key, such
  as a cron expression of a custom schedule, is kept in \<open>sd_other\<close>; no calculator
  reads it.
\<close>

record schedule_data =
  sd_time :: "(int \<times> int) field"
  sd_day_of_week :: "int option"
  sd_day_of_month :: "int option"
  sd_datetime :: "date_time field"
  sd_other :: "(string \<times> string) list"

definition empty_data :: schedule_data where
  "empty_data = \<lparr>sd_time = Absent, sd_day_of_week = None, sd_day_of_month = None,
                  sd_datetime = Absent, sd_other = []\<rparr>"

type_synonym content = "(string \<times> string) list"

record schedule =
  sched_user_id :: int
  is_active :: bool
  schedule_type :: string
  schedule_data :: "schedule_data option"
  content_queue :: "content list option"
  current_index :: int
  target_platforms :: "string list option"
  last_executed :: "date_time option"
  next_execution :: "date_time option"

text \<open>
  One entry of \<^verbatim>\<open>results\<close> in \<^verbatim>\<open>post_to_multiple_platforms\<close>: the dictionary
  with the keys \<^verbatim>\<open>platform\<close>, \<^verbatim>\<open>status\<close> and, by the branch that built
  it, \<^verbatim>\<open>error\<close> or \<^verbatim>\<open>platform_post_id\<close>.
\<close>

record posting_result =
  pr_platform :: string
  pr_status :: string
  pr_error :: "string option"
  pr_platform_post_id :: "string option"

record post =
  post_id :: int
  post_user_id :: int
  title :: string
  description :: string
  file_path :: string
  file_type :: string
  scheduled_time :: "date_time option"
  posted_at :: "date_time option"
  status :: string
  posting_results :: "posting_result list option"

text \<open>
  The database session and the task queue: the \<^verbatim>\<open>schedules\<close> table by primary
  key, the \<^verbatim>\<open>posts\<close> table in insertion order with the primary key its next row
  is given, and the calls
  \<^verbatim>\<open>post_to_multiple_platforms.delay(post.id, target_platforms)\<close> handed to the
  task runner.
\<close>

record db =
  schedules :: "int \<rightharpoonup> schedule"
  posts :: "post list"
  post_seq :: int
  delayed :: "(int \<times> string list) list"

section \<open>The recurrence calculators\<close>

text \<open>\<^verbatim>\<open>hour, minute = map(int, schedule_data.get("time", "09:00").split(":"))\<close>\<close>

definition get_time :: "schedule_data \<Rightarrow> py_error + (int \<times> int)" where
  "get_time sd = (case sd_time sd of Absent \<Rightarrow> Inr (9, 0) | Parsed hm \<Rightarrow> Inr hm
                  | Malformed \<Rightarrow> Inl ValueError)"

definition get_default :: "'a option \<Rightarrow> 'a \<Rightarrow> 'a" where
  "get_default v d = (case v of None \<Rightarrow> d | Some x \<Rightarrow> x)"

text \<open>\<^verbatim>\<open>calculate_next_execution_time\<close> of \<^verbatim>\<open>app/tasks/posting_tasks.py\<close>.\<close>

definition calculate_next_execution_time :: "schedule \<Rightarrow> date_time \<Rightarrow> py_error + date_time" where
  "calculate_next_execution_time sch now =
     (let sd = get_default (schedule_data sch) empty_data in
      if schedule_type sch = ''daily'' then
        (case get_time sd of Inl e \<Rightarrow> Inl e | Inr (h, mi) \<Rightarrow>
           (case dt_replace now None None None (Some h) (Some mi) (Some 0) (Some 0) of
              Inl e \<Rightarrow> Inl e
            | Inr next_run \<Rightarrow> if dt_le next_run now then add_days next_run 1 else Inr next_run))
      else if schedule_type sch = ''weekly'' then
        (let day_of_week = get_default (sd_day_of_week sd) 1 in
         case get_time sd of Inl e \<Rightarrow> Inl e | Inr (h, mi) \<Rightarrow>
           (let days_ahead = day_of_week - weekday now;
                days_ahead = (if days_ahead \<le> 0 then days_ahead + 7 else days_ahead) in
            case add_days now days_ahead of
              Inl e \<Rightarrow> Inl e
            | Inr next_run \<Rightarrow> dt_replace next_run None None None (Some h) (Some mi) (Some 0) (Some 0)))
      else if schedule_type sch = ''monthly'' then
        (let day_of_month = get_default (sd_day_of_month sd) 1 in
         case get_time sd of Inl e \<Rightarrow> Inl e | Inr (h, mi) \<Rightarrow>
           (case dt_replace now None None (Some day_of_month) (Some h) (Some mi) (Some 0) (Some 0) of
              Inl e \<Rightarrow> Inl e
            | Inr next_run \<Rightarrow>
                if dt_le next_run now then
                  (if month now = 12
                   then dt_replace next_run (Some (year now + 1)) (Some 1) None None None None None
                   else dt_replace next_run None (Some (month now + 1)) None None None None None)
                else Inr next_run))
      else add_hours now 1)"

text \<open>\<^verbatim>\<open>calculate_next_execution\<close> of \<^verbatim>\<open>app/api/scheduling.py\<close>.\<close>

definition calculate_next_execution :: "string \<Rightarrow> schedule_data \<Rightarrow> date_time \<Rightarrow> py_error + date_time" where
  "calculate_next_execution stype sd now =
     (if stype = ''once'' then
        (case sd_datetime sd of Absent \<Rightarrow> Inl TypeError | Malformed \<Rightarrow> Inl ValueError
         | Parsed dt \<Rightarrow> Inr dt)
      else if stype = ''daily'' then
        (case get_time sd of Inl e \<Rightarrow> Inl e | Inr (h, mi) \<Rightarrow>
           (case dt_replace now None None None (Some h) (Some mi) (Some 0) (Some 0) of
              Inl e \<Rightarrow> Inl e
            | Inr next_run \<Rightarrow> if dt_le next_run now then add_days next_run 1 else Inr next_run))
      else if stype = ''weekly'' then
        (let day_of_week = get_default (sd_day_of_week sd) 1 in
         case get_time sd of Inl e \<Rightarrow> Inl e | Inr (h, mi) \<Rightarrow>
           (let days_ahead = day_of_week - weekday now;
                days_ahead = (if days_ahead \<le> 0 then days_ahead + 7 else days_ahead) in
            case add_days now days_ahead of
              Inl e \<Rightarrow> Inl e
            | Inr next_run \<Rightarrow> dt_replace next_run None None None (Some h) (Some mi) (Some 0) (Some 0)))
      else if stype = ''monthly'' then
        (let day_of_month = get_default (sd_day_of_month sd) 1 in
         case get_time sd of Inl e \<Rightarrow> Inl e | Inr (h, mi) \<Rightarrow>
           (case dt_replace now None None (Some day_of_month) (Some h) (Some mi) (Some 0) (Some 0) of
              Inl e \<Rightarrow> Inl e
            | Inr next_run \<Rightarrow>
                if dt_le next_run now then
                  (if month now = 12
                   then dt_replace next_run (Some (year now + 1)) (Some 1) None None None None None
                   else dt_replace next_run None (Some (month now + 1)) None None None None None)
                else Inr next_run))
      else add_hours now 1)"

subsection \<open>The clock\<close>





section \<open>Executing a schedule\<close>

text \<open>\<^verbatim>\<open>xs or []\<close> on a nullable JSON list.\<close>

definition or_empty :: "'a list option \<Rightarrow> 'a list" where
  "or_empty xs = (case xs of None \<Rightarrow> [] | Some ys \<Rightarrow> ys)"

text \<open>\<^verbatim>\<open>xs[i]\<close>: a negative index counts from the end, out of range raises.\<close>

definition py_getitem :: "'a list \<Rightarrow> int \<Rightarrow> py_error + 'a" where
  "py_getitem queue idx =
     (if idx < - int (length queue) \<or> int (length queue) \<le> idx then Inl IndexError
      else if idx < 0 then Inr (queue ! nat (idx + int (length queue)))
      else Inr (queue ! nat idx))"

text \<open>\<^verbatim>\<open>d.get(k, default)\<close> on a content item.\<close>

definition get_str :: "content \<Rightarrow> string \<Rightarrow> string \<Rightarrow> string" where
  "get_str c k d = (case map_of c k of None \<Rightarrow> d | Some v \<Rightarrow> v)"

text \<open>
  The content-queue cursor of \<^verbatim>\<open>execute_schedule\<close> (lines 257 to 265 and 288 of
  \<^verbatim>\<open>app/tasks/posting_tasks.py\<close>): \<open>Inr None\<close> is the skip on an empty queue;
  otherwise the item read, the index it was read at and the index stored for the next
  run.
\<close>

definition advance :: "'a list \<Rightarrow> int \<Rightarrow> py_error + ('a \<times> int \<times> int) option" where
  "advance queue cursor =
     (if queue = [] then Inr None
      else
        (let idx = (if cursor \<ge> int (length queue) then 0 else cursor) in
         case py_getitem queue idx of
           Inl e \<Rightarrow> Inl e
         | Inr current_content \<Rightarrow>
             Inr (Some (current_content, idx, (idx + 1) mod int (length queue)))))"

datatype exec_result =
    Skipped string
  | Success int int int date_time
  | Raised py_error

text \<open>
  \<^verbatim>\<open>execute_schedule\<close> of \<^verbatim>\<open>app/tasks/posting_tasks.py\<close>. A run that
  materializes a post reads the clock three times: \<open>now1\<close> for
  \<^verbatim>\<open>scheduled_time\<close> (line 274), \<open>now2\<close> for \<^verbatim>\<open>last_executed\<close> (line 289)
  and \<open>now3\<close> inside \<^verbatim>\<open>calculate_next_execution_time\<close> (line 336). The post
  gets its primary key from the table when it is committed, before the schedule is
  updated, so an exception of the calculator leaves the post and the queued dispatch in
  place and the schedule row as it was. \<open>Success\<close> carries \<^verbatim>\<open>schedule_id\<close>,
  \<^verbatim>\<open>post_id\<close>, \<^verbatim>\<open>content_index\<close> and \<^verbatim>\<open>next_execution\<close>.
\<close>

definition new_post :: "db \<Rightarrow> schedule \<Rightarrow> content \<Rightarrow> date_time \<Rightarrow> post" where
  "new_post d sch current_content now =
     \<lparr>post_id = post_seq d,
      post_user_id = sched_user_id sch,
      title = get_str current_content ''title'' [],
      description = get_str current_content ''description'' [],
      file_path = get_str current_content ''file_path'' [],
      file_type = get_str current_content ''file_type'' ''image'',
      scheduled_time = Some now,
      posted_at = None,
      status = ''scheduled'',
      posting_results = None\<rparr>"

definition execute_schedule ::
  "db \<Rightarrow> int \<Rightarrow> date_time \<Rightarrow> date_time \<Rightarrow> date_time \<Rightarrow> exec_result \<times> db" where
  "execute_schedule d schedule_id now1 now2 now3 =
     (case schedules d schedule_id of
        None \<Rightarrow> (Skipped ''Schedule not found or inactive'', d)
      | Some sch \<Rightarrow>
          if \<not> is_active sch then (Skipped ''Schedule not found or inactive'', d)
          else
            (case advance (or_empty (content_queue sch)) (current_index sch) of
               Inl e \<Rightarrow> (Raised e, d)
             | Inr None \<Rightarrow> (Skipped ''No content in queue'', d)
             | Inr (Some (current_content, idx, next_index)) \<Rightarrow>
                 (let p = new_post d sch current_content now1;
                      d1 = d\<lparr>posts := posts d @ [p], post_seq := post_seq d + 1\<rparr>;
                      tp = or_empty (target_platforms sch);
                      d2 = (if tp \<noteq> [] then d1\<lparr>delayed := delayed d1 @ [(post_id p, tp)]\<rparr> else d1);
                      sch1 = sch\<lparr>current_index := next_index, last_executed := Some now2\<rparr>
                  in case calculate_next_execution_time sch1 now3 of
                       Inl e \<Rightarrow> (Raised e, d2)
                     | Inr t \<Rightarrow>
                         (Success schedule_id (post_id p) idx t,
                          d2\<lparr>schedules := (schedules d2)(schedule_id \<mapsto> sch1\<lparr>next_execution := Some t\<rparr>)\<rparr>))))"

text \<open>
  The filter of \<^verbatim>\<open>check_and_execute_schedules\<close> in
  \<^verbatim>\<open>app/tasks/scheduling_tasks.py\<close>: the schedules it hands to
  \<^verbatim>\<open>execute_schedule\<close>. A null \<^verbatim>\<open>next_execution\<close> never compares true.
\<close>

definition is_due :: "schedule \<Rightarrow> date_time \<Rightarrow> bool" where
  "is_due sch now = (is_active sch \<and> (case next_execution sch of None \<Rightarrow> False | Some t \<Rightarrow> dt_le t now))"

section \<open>Posting to several platforms\<close>

text \<open>
  What one pass of the loop of \<^verbatim>\<open>post_to_multiple_platforms\<close> meets for a
  platform: no active social account, a \<^verbatim>\<open>post_content\<close> that returns (with the
  \<^verbatim>\<open>post_id\<close> of its result), or an exception with its message.
\<close>

datatype attempt = NoAccount | Posted "string option" | Failed string

definition platform_result :: "string \<times> attempt \<Rightarrow> posting_result" where
  "platform_result t =
     (case snd t of
        NoAccount \<Rightarrow> \<lparr>pr_platform = fst t, pr_status = ''failed'',
                      pr_error = Some ''No active social account found'', pr_platform_post_id = None\<rparr>
      | Posted pid \<Rightarrow> \<lparr>pr_platform = fst t, pr_status = ''success'',
                       pr_error = None, pr_platform_post_id = pid\<rparr>
      | Failed msg \<Rightarrow> \<lparr>pr_platform = fst t, pr_status = ''failed'',
                       pr_error = Some msg, pr_platform_post_id = None\<rparr>)"

definition get_post :: "db \<Rightarrow> int \<Rightarrow> post option" where
  "get_post d pid = find (\<lambda>p. post_id p = pid) (posts d)"

definition put_post :: "db \<Rightarrow> post \<Rightarrow> db" where
  "put_post d p = d\<lparr>posts := map (\<lambda>q. if post_id q = post_id p then p else q) (posts d)\<rparr>"

text \<open>Lines 156 to 162: the post status from the results and the number of targets.\<close>

definition success_count :: "posting_result list \<Rightarrow> nat" where
  "success_count results = length (filter (\<lambda>r. pr_status r = ''success'') results)"

definition aggregate_status :: "posting_result list \<Rightarrow> nat \<Rightarrow> string" where
  "aggregate_status results total_platforms =
     (if success_count results > 0
      then (if success_count results = total_platforms then ''posted'' else ''partially_posted'')
      else ''failed'')"

text \<open>
  \<^verbatim>\<open>post_to_multiple_platforms\<close> of \<^verbatim>\<open>app/tasks/posting_tasks.py\<close>. Each
  target is a platform of \<^verbatim>\<open>platform_ids\<close> with what its pass of the loop meets.
  The value returned is \<^verbatim>\<open>results\<close>, \<^verbatim>\<open>success_count\<close> and
  \<^verbatim>\<open>total_platforms\<close>.
\<close>

definition post_to_multiple_platforms ::
  "db \<Rightarrow> int \<Rightarrow> (string \<times> attempt) list \<Rightarrow> date_time
     \<Rightarrow> (py_error + posting_result list \<times> nat \<times> nat) \<times> db" where
  "post_to_multiple_platforms d pid targets now =
     (case get_post d pid of
        None \<Rightarrow> (Inl (Exception ''Post not found''), d)
      | Some p \<Rightarrow>
          (let total_platforms = length targets;
               results = map platform_result targets;
               p1 = (if success_count results > 0
                     then p\<lparr>status := aggregate_status results total_platforms, posted_at := Some now\<rparr>
                     else p\<lparr>status := aggregate_status results total_platforms\<rparr>);
               p2 = p1\<lparr>posting_results := Some results\<rparr>
           in (Inr (results, success_count results, total_platforms), put_post d p2)))"

section \<open>Notions used in the statements\<close>

text \<open>The calendar date alone, and a month and day that exist in their year.\<close>

definition date_less :: "date_time \<Rightarrow> date_time \<Rightarrow> bool" where
  "date_less a b =
     (year a < year b \<or> (year a = year b \<and> (month a < month b \<or> (month a = month b \<and> day a < day b))))"

definition valid_md :: "date_time \<Rightarrow> bool" where
  "valid_md dt = (1 \<le> month dt \<and> month dt \<le> 12 \<and> 1 \<le> day dt \<and> day dt \<le> days_in_month (year dt) (month dt))"

text \<open>
  Valid recurrence parameters: a time of day that exists (an absent \<^verbatim>\<open>"time"\<close> is
  09:00), a day of the week from 1 to 7 and a day of the month from 1 to 31 (absent: 1).
\<close>

definition valid_time_of_day :: "schedule_data \<Rightarrow> bool" where
  "valid_time_of_day sd =
     (case get_time sd of Inl e \<Rightarrow> False
      | Inr (h, mi) \<Rightarrow> 0 \<le> h \<and> h \<le> 23 \<and> 0 \<le> mi \<and> mi \<le> 59)"

definition valid_params :: "string \<Rightarrow> schedule_data \<Rightarrow> bool" where
  "valid_params kind sd =
     (valid_time_of_day sd
      \<and> (kind = ''weekly'' \<longrightarrow> 1 \<le> get_default (sd_day_of_week sd) 1 \<and> get_default (sd_day_of_week sd) 1 \<le> 7)
      \<and> (kind = ''monthly'' \<longrightarrow> 1 \<le> get_default (sd_day_of_month sd) 1 \<and> get_default (sd_day_of_month sd) 1 \<le> 31))"

text \<open>The day of the month placed in the month of \<open>now\<close>, at the time of day.\<close>

definition monthly_candidate :: "date_time \<Rightarrow> int \<Rightarrow> int \<Rightarrow> int \<Rightarrow> date_time" where
  "monthly_candidate now dm h mi =
     \<lparr>year = year now, month = month now, day = dm, hour = h, minute = mi, second = 0, microsecond = 0\<rparr>"

text \<open>One hour after a valid instant, as \<open>add_hours\<close> computes it.\<close>

definition one_hour_later :: "date_time \<Rightarrow> py_error + date_time" where
  "one_hour_later now =
     (if hour now < 23 then Inr (now\<lparr>hour := hour now + 1\<rparr>)
      else if year (next_day (now\<lparr>hour := 0\<rparr>)) \<le> 9999 then Inr (next_day (now\<lparr>hour := 0\<rparr>))
      else Inl OverflowError)"

text \<open>A target whose pass of the loop ends in \<^verbatim>\<open>'status': 'success'\<close>.\<close>

definition succeeded :: "string \<times> attempt \<Rightarrow> bool" where
  "succeeded t = (case snd t of Posted pid \<Rightarrow> True | NoAccount \<Rightarrow> False | Failed msg \<Rightarrow> False)"

definition post_status :: "db \<Rightarrow> int \<Rightarrow> string option" where
  "post_status d pid = map_option status (get_post d pid)"

text \<open>
  The database after the post of \<^verbatim>\<open>execute_schedule\<close> is committed and its
  dispatch is queued.
\<close>

definition with_post :: "db \<Rightarrow> schedule \<Rightarrow> content \<Rightarrow> date_time \<Rightarrow> db" where
  "with_post d sch c now =
     (if or_empty (target_platforms sch) \<noteq> []
      then d\<lparr>posts := posts d @ [new_post d sch c now], post_seq := post_seq d + 1,
             delayed := delayed d @ [(post_seq d, or_empty (target_platforms sch))]\<rparr>
      else d\<lparr>posts := posts d @ [new_post d sch c now], post_seq := post_seq d + 1\<rparr>)"

text \<open>
  The inputs on which a monthly schedule gets no instant: the time of day does not
  parse, or the day of the month does not exist in the month of \<open>now\<close>, or the
  instant in that month is not ahead and the day does not exist in the next month (for
  December: the next year is past 9999).
\<close>

definition monthly_raises :: "schedule_data \<Rightarrow> date_time \<Rightarrow> bool" where
  "monthly_raises sd now =
     (case get_time sd of
        Inl e \<Rightarrow> True
      | Inr (h, mi) \<Rightarrow>
          days_in_month (year now) (month now) < get_default (sd_day_of_month sd) 1
          \<or> (dt_le (monthly_candidate now (get_default (sd_day_of_month sd) 1) h mi) now
              \<and> (if month now = 12 then year now = 9999
                  else days_in_month (year now) (month now + 1) < get_default (sd_day_of_month sd) 1)))"

text \<open>
  The inputs on which a daily or weekly schedule gets no instant: the day added would
  fall after 31 December 9999. A daily schedule adds a day when the time of day in the
  date of \<open>now\<close> is not ahead; a weekly schedule adds \<^verbatim>\<open>days_ahead\<close>.
\<close>

definition at_time :: "date_time \<Rightarrow> int \<Rightarrow> int \<Rightarrow> date_time" where
  "at_time now h mi =
     \<lparr>year = year now, month = month now, day = day now, hour = h, minute = mi, second = 0, microsecond = 0\<rparr>"

definition passes_last_day :: "date_time \<Rightarrow> int \<Rightarrow> bool" where
  "passes_last_day now k = (year now = 9999 \<and> month now = 12 \<and> 31 < day now + k)"

definition days_ahead :: "schedule_data \<Rightarrow> date_time \<Rightarrow> int" where
  "days_ahead sd now =
     (if get_default (sd_day_of_week sd) 1 - weekday now \<le> 0
      then get_default (sd_day_of_week sd) 1 - weekday now + 7
      else get_default (sd_day_of_week sd) 1 - weekday now)"

definition no_instant :: "string \<Rightarrow> schedule_data \<Rightarrow> date_time \<Rightarrow> bool" where
  "no_instant kind sd now =
     (if kind = ''monthly'' then monthly_raises sd now
      else if kind = ''weekly'' then passes_last_day now (days_ahead sd now)
      else (case get_time sd of
              Inl e \<Rightarrow> True
            | Inr (h, mi) \<Rightarrow> dt_le (at_time now h mi) now \<and> passes_last_day now 1))"

subsection \<open>Concrete instants, schedules and databases\<close>

definition at :: "int \<Rightarrow> int \<Rightarrow> int \<Rightarrow> int \<Rightarrow> int \<Rightarrow> date_time" where
  "at y m d h mi = \<lparr>year = y, month = m, day = d, hour = h, minute = mi, second = 0, microsecond = 0\<rparr>"

definition item_a :: content where
  "item_a = [(''title'', ''a''), (''file_path'', ''a.png'')]"

definition item_b :: content where
  "item_b = [(''title'', ''b''), (''file_path'', ''b.png'')]"

definition item_c :: content where
  "item_c = [(''title'', ''c''), (''file_path'', ''c.png'')]"

definition sample_schedule :: "string \<Rightarrow> schedule_data \<Rightarrow> content list \<Rightarrow> int \<Rightarrow> schedule" where
  "sample_schedule kind sd queue cursor =
     \<lparr>sched_user_id = 1, is_active = True, schedule_type = kind, schedule_data = Some sd,
      content_queue = Some queue, current_index = cursor, target_platforms = Some [''twitter''],
      last_executed = None, next_execution = Some (at 2024 1 3 10 0)\<rparr>"

definition sample_db :: "schedule \<Rightarrow> db" where
  "sample_db sch = \<lparr>schedules = [7 \<mapsto> sch], posts = [], post_seq = 1, delayed = []\<rparr>"

definition weekly_wed_data :: schedule_data where
  "weekly_wed_data = empty_data\<lparr>sd_time := Parsed (9, 0), sd_day_of_week := Some 3\<rparr>"

definition monthly_31_data :: schedule_data where
  "monthly_31_data = empty_data\<lparr>sd_time := Parsed (9, 0), sd_day_of_month := Some 31\<rparr>"

definition custom_data :: schedule_data where
  "custom_data = empty_data\<lparr>sd_other := [(''cron'', ''every full moon'')]\<rparr>"

definition once_data :: schedule_data where
  "once_data = empty_data\<lparr>sd_datetime := Parsed (at 2024 1 3 10 0)\<rparr>"

definition once_db :: db where
  "once_db = sample_db (sample_schedule ''once'' once_data [item_a] 0)"

definition daily_db :: db where
  "daily_db = sample_db (sample_schedule ''daily'' empty_data [item_a, item_b] 0)"

definition once_after :: schedule where
  "once_after = (sample_schedule ''once'' once_data [item_a] 0)
                  \<lparr>current_index := 0, last_executed := Some (at 2024 1 3 10 1),
                    next_execution := Some (at 2024 1 3 11 2)\<rparr>"


definition draft_post :: post where
  "draft_post = \<lparr>post_id = 1, post_user_id = 1, title = ''a'', description = [], file_path = ''a.png'',
                 file_type = ''image'', scheduled_time = Some (at 2024 1 3 10 0), posted_at = None,
                 status = ''scheduled'', posting_results = None\<rparr>"

definition post_db :: db where
  "post_db = \<lparr>schedules = Map.empty, posts = [draft_post], post_seq = 2, delayed = []\<rparr>"

section \<open>The calendar\<close>

lemma div_succ: "0 < n \<Longrightarrow> (z + 1) div n = z div n + (if (z + 1) mod n = 0 then 1 else 0)" for z n :: int
proof (cases "(z + 1) mod n = 0")
  case True
  assume n: "0 < n"
  define q where "q = (z + 1) div n"
  have "n * q + (z + 1) mod n = z + 1" unfolding q_def by (rule mult_div_mod_eq)
  hence "z + 1 = n * q" using True by simp
  hence "z = n * (q - 1) + (n - 1)" by (simp add: algebra_simps)
  hence "z div n = q - 1" using n by (intro int_div_pos_eq[where r = "n - 1"]) auto
  thus ?thesis using True q_def by simp
next
  case False
  assume n: "0 < n"
  define q where "q = (z + 1) div n"
  define r where "r = (z + 1) mod n"
  have "0 \<le> r" "r < n" using n unfolding r_def by auto
  hence r: "1 \<le> r" "r < n" using False r_def by auto
  have "n * q + r = z + 1" unfolding q_def r_def by (rule mult_div_mod_eq)
  hence "z = n * q + (r - 1)" by simp
  hence "z div n = q" using n r by (intro int_div_pos_eq[where r = "r - 1"]) auto
  thus ?thesis using False q_def by simp
qed

lemma days_before_year_Suc: "days_before_year (y + 1) = days_before_year y + (if is_leap y then 366 else 365)"
proof -
  define p4 where "p4 \<longleftrightarrow> y mod 4 = 0"
  define p100 where "p100 \<longleftrightarrow> y mod 100 = 0"
  define p400 where "p400 \<longleftrightarrow> y mod 400 = 0"
  define l4 :: int where "l4 = (if p4 then 1 else 0)"
  define l100 :: int where "l100 = (if p100 then 1 else 0)"
  define l400 :: int where "l400 = (if p400 then 1 else 0)"
  have a: "y div 4 = (y - 1) div 4 + l4" using div_succ[of 4 "y - 1"] by (simp add: l4_def p4_def)
  have b: "y div 100 = (y - 1) div 100 + l100" using div_succ[of 100 "y - 1"] by (simp add: l100_def p100_def)
  have c: "y div 400 = (y - 1) div 400 + l400" using div_succ[of 400 "y - 1"] by (simp add: l400_def p400_def)
  have d: "p400 \<Longrightarrow> p100" unfolding p400_def p100_def using mod_mod_cancel[of 100 400 y] by simp
  have e: "p100 \<Longrightarrow> p4" unfolding p4_def p100_def using mod_mod_cancel[of 4 100 y] by simp
  have l: "is_leap y \<longleftrightarrow> p4 \<and> (\<not> p100 \<or> p400)" by (simp only: is_leap_def p4_def p100_def p400_def)
  have f: "(if is_leap y then 366 else 365) = 365 + l4 - l100 + l400"
    unfolding l l4_def l100_def l400_def using d e by (cases p4; cases p100; cases p400) simp_all
  have g: "days_before_year (y + 1) = y * 365 + y div 4 - y div 100 + y div 400"
    unfolding days_before_year_def by simp
  have h: "days_before_year y = y * 365 - 365 + (y - 1) div 4 - (y - 1) div 100 + (y - 1) div 400"
    unfolding days_before_year_def by (simp add: algebra_simps)
  show ?thesis unfolding f g h a b c by linarith
qed


lemma days_in_month_bounds: "28 \<le> days_in_month y m" "days_in_month y m \<le> 31"
  by (simp_all add: days_in_month_def)

lemma toordinal_next_day:
  "valid_md dt \<Longrightarrow> toordinal (next_day dt) = toordinal dt + 1"
  unfolding toordinal_def next_day_def valid_md_def
  by (auto simp: days_before_year_Suc days_in_month_def days_before_month_def; arith)

lemma toordinal_prev_day:
  "valid_md dt \<Longrightarrow> toordinal (prev_day dt) = toordinal dt - 1"
proof -
  have eq: "days_before_year (year dt) = days_before_year (year dt - 1) + (if is_leap (year dt - 1) then 366 else 365)"
    using days_before_year_Suc[of "year dt - 1"] by simp
  assume "valid_md dt"
  thus ?thesis
  unfolding toordinal_def prev_day_def valid_md_def
    by (auto simp: days_in_month_def days_before_month_def eq) arith
qed

lemma weekday_next_day: "valid_md dt \<Longrightarrow> weekday (next_day dt) = (weekday dt + 1) mod 7"
  unfolding weekday_def by (simp add: toordinal_next_day mod_simps add.commute add.left_commute)

lemma weekday_range: "0 \<le> weekday dt \<and> weekday dt \<le> 6"
  unfolding weekday_def by simp

lemma date_less_imp_dt_less: "date_less a b \<Longrightarrow> dt_less a b"
  unfolding date_less_def dt_less_def by blast

lemma date_less_trans: "date_less a b \<Longrightarrow> date_less b c \<Longrightarrow> date_less a c"
  unfolding date_less_def by auto

lemma date_less_next_day: "date_less d (next_day d)"
  unfolding date_less_def next_day_def by simp

lemma valid_md_next_day: "valid_md d \<Longrightarrow> valid_md (next_day d)"
  unfolding valid_md_def next_day_def using days_in_month_bounds[of "year d" "month d + 1"]
  by (auto simp: days_in_month_def)

lemma date_less_funpow: "date_less d ((next_day ^^ Suc k) d)"
proof (induction k)
  case 0
  show ?case by (simp add: date_less_next_day)
next
  case (Suc k)
  have "date_less ((next_day ^^ Suc k) d) (next_day ((next_day ^^ Suc k) d))"
    by (rule date_less_next_day)
  with Suc show ?case by (simp add: date_less_trans)
qed

lemma valid_md_funpow: "valid_md d \<Longrightarrow> valid_md ((next_day ^^ k) d)"
  by (induction k) (simp_all add: valid_md_next_day)

lemma year_funpow_lower: "year d \<le> year ((next_day ^^ k) d)"
proof (induction k)
  case 0
  show ?case by simp
next
  case (Suc k)
  have "year r \<le> year (next_day r)" for r unfolding next_day_def by simp
  from this[of "(next_day ^^ k) d"] Suc show ?case by simp
qed

lemma year_funpow_upper:
  "k \<le> 30 \<Longrightarrow> year ((next_day ^^ k) d) = year d
     \<or> (year ((next_day ^^ k) d) = year d + 1 \<and> month ((next_day ^^ k) d) = 1 \<and> day ((next_day ^^ k) d) \<le> int k)"
proof (induction k)
  case 0
  show ?case by simp
next
  case (Suc k)
  define r where "r = (next_day ^^ k) d"
  from Suc have ih: "year r = year d \<or> (year r = year d + 1 \<and> month r = 1 \<and> day r \<le> int k)" and k: "k < 30"
    unfolding r_def by simp_all
  have "year (next_day r) = year d \<or> (year (next_day r) = year d + 1 \<and> month (next_day r) = 1 \<and> day (next_day r) \<le> int (Suc k))"
    using ih k unfolding next_day_def by (auto simp: days_in_month_def)
  thus ?case unfolding r_def by simp
qed


lemma valid_time_of_dayE:
  assumes "valid_time_of_day sd"
  obtains h mi where "get_time sd = Inr (h, mi)" "0 \<le> h" "h \<le> 23" "0 \<le> mi" "mi \<le> 59"
  using assms unfolding valid_time_of_day_def by (auto split: sum.splits)

lemma valid_dt_md: "valid_dt d \<Longrightarrow> valid_md d"
  unfolding valid_dt_def valid_date_def valid_md_def by simp

lemma set_time_of_day:
  assumes "valid_md d" "1 \<le> year d" "year d \<le> 9999" "0 \<le> h" "h \<le> 23" "0 \<le> mi" "mi \<le> 59"
  shows "dt_replace d None None None (Some h) (Some mi) (Some 0) (Some 0)
         = Inr \<lparr>year = year d, month = month d, day = day d, hour = h, minute = mi, second = 0, microsecond = 0\<rparr>"
  using assms unfolding dt_replace_def mk_datetime_def valid_md_def valid_date_def valid_time_def by simp

lemma add_days_pos:
  assumes "valid_md d" "1 \<le> year d" "year d \<le> 9999" "1 \<le> k" "k \<le> 30"
  shows "case add_days d k of
           Inr r \<Rightarrow> date_less d r \<and> valid_md r \<and> 1 \<le> year r \<and> year r \<le> 9999
                    \<and> hour r = hour d \<and> minute r = minute d \<and> second r = second d \<and> microsecond r = microsecond d
         | Inl e \<Rightarrow> e = OverflowError \<and> year d = 9999"
proof -
  define r where "r = (next_day ^^ nat k) d"
  obtain j where j: "nat k = Suc j" using assms(4) by (cases "nat k") auto
  have 1: "date_less d r" unfolding r_def j by (rule date_less_funpow)
  have 2: "valid_md r" unfolding r_def using assms(1) by (rule valid_md_funpow)
  have 3: "year d \<le> year r" unfolding r_def by (rule year_funpow_lower)
  have "nat k \<le> 30" using assms(5) by simp
  from year_funpow_upper[OF this, of d] have 4: "year r \<le> year d + 1" unfolding r_def by auto
  have tm: "hour ((next_day ^^ n) x) = hour x \<and> minute ((next_day ^^ n) x) = minute x
      \<and> second ((next_day ^^ n) x) = second x \<and> microsecond ((next_day ^^ n) x) = microsecond x" for n x
    by (induction n) (simp_all add: next_day_def)
  have ad: "add_days d k = (if 1 \<le> year r \<and> year r \<le> 9999 then Inr r else Inl OverflowError)"
    using assms(4) unfolding add_days_def r_def by (simp add: Let_def)
  show ?thesis unfolding ad using 1 2 3 4 assms(2,3) tm[of "nat k" d] by (auto simp: r_def)
qed


lemma funpow_next_day_place:
  assumes "valid_md d" "k \<le> 28"
  shows "(if month d = 12 \<and> 31 < day d + int k
          then year ((next_day ^^ k) d) = year d + 1 \<and> month ((next_day ^^ k) d) = 1
               \<and> day ((next_day ^^ k) d) = day d + int k - 31
          else year ((next_day ^^ k) d) = year d
               \<and> (month ((next_day ^^ k) d) = month d \<and> day ((next_day ^^ k) d) = day d + int k
                  \<or> month d < 12 \<and> month ((next_day ^^ k) d) = month d + 1
                    \<and> 1 \<le> day ((next_day ^^ k) d) \<and> day ((next_day ^^ k) d) \<le> int k))"
  using assms(2)
proof (induction k)
  case 0
  have "day d \<le> 31" using assms(1) days_in_month_bounds(2)[of "year d" "month d"]
    unfolding valid_md_def by linarith
  thus ?case by simp
next
  case (Suc k)
  define r where "r = (next_day ^^ k) d"
  have k: "int k \<le> 27" using Suc.prems by simp
  have vr: "valid_md r" unfolding r_def using assms(1) by (rule valid_md_funpow)
  have dd: "1 \<le> day d" "day d \<le> 31"
    using assms(1) days_in_month_bounds(2)[of "year d" "month d"] unfolding valid_md_def by linarith+
  have ih: "if month d = 12 \<and> 31 < day d + int k
          then year r = year d + 1 \<and> month r = 1 \<and> day r = day d + int k - 31
          else year r = year d
               \<and> (month r = month d \<and> day r = day d + int k
                  \<or> month d < 12 \<and> month r = month d + 1 \<and> 1 \<le> day r \<and> day r \<le> int k)"
    using Suc.IH Suc.prems unfolding r_def by simp
  have step: "(next_day ^^ Suc k) d = next_day r" unfolding r_def by simp
  have dim12: "days_in_month y 12 = 31" "days_in_month y 1 = 31" for y
    by (simp_all add: days_in_month_def)
  have lo: "28 \<le> days_in_month y m" for y m by (rule days_in_month_bounds)
  consider (rolled) "month d = 12" "31 < day d + int k"
    | (same) "\<not> (month d = 12 \<and> 31 < day d + int k)" "month r = month d" "day r = day d + int k"
    | (nextm) "month d < 12" "month r = month d + 1" "1 \<le> day r" "day r \<le> int k"
    using ih by (auto split: if_splits)
  then show ?case
  proof cases
    case rolled
    with ih have r: "year r = year d + 1" "month r = 1" "day r = day d + int k - 31" by simp_all
    have "day r < days_in_month (year r) (month r)" using r k dd by (simp add: dim12)
    hence "next_day r = r\<lparr>day := day r + 1\<rparr>" unfolding next_day_def by simp
    thus ?thesis unfolding step using r rolled by simp
  next
    case same
    with ih have yr: "year r = year d" by (simp split: if_splits)
    have le: "day r \<le> days_in_month (year d) (month d)"
      using vr same(2) yr unfolding valid_md_def by simp
    show ?thesis
    proof (cases "day r < days_in_month (year d) (month d)")
      case True
      hence n: "next_day r = r\<lparr>day := day r + 1\<rparr>" unfolding next_day_def using same(2) yr by simp
      have "\<not> (month d = 12 \<and> 31 < day d + int (Suc k))"
        using True same(3) by (auto simp: dim12)
      thus ?thesis unfolding step n using same yr by simp
    next
      case False
      hence eq: "day r = days_in_month (year d) (month d)" using le by simp
      show ?thesis
      proof (cases "month d = 12")
        case True
        hence n: "next_day r = r\<lparr>year := year r + 1, month := 1, day := 1\<rparr>"
          unfolding next_day_def using same(2) yr eq by simp
        have "day d + int k = 31" using eq same(3) True by (simp add: dim12)
        thus ?thesis unfolding step n using True yr by simp
      next
        case False
        have m: "month d < 12" using False assms(1) unfolding valid_md_def by simp
        hence n: "next_day r = r\<lparr>month := month r + 1, day := 1\<rparr>"
          unfolding next_day_def using same(2) yr eq by simp
        show ?thesis unfolding step n using False m yr same(2) by simp
      qed
    qed
  next
    case nextm
    with ih have yr: "year r = year d" by (simp split: if_splits)
    have "day r < days_in_month (year r) (month r)"
      using nextm(4) k lo[of "year r" "month r"] by linarith
    hence n: "next_day r = r\<lparr>day := day r + 1\<rparr>" unfolding next_day_def by simp
    show ?thesis unfolding step n using nextm yr by simp
  qed
qed

lemma add_days_raises:
  assumes "valid_md d" "1 \<le> year d" "year d \<le> 9999" "1 \<le> k" "k \<le> 28"
  shows "(\<exists>e. add_days d k = Inl e) \<longleftrightarrow> passes_last_day d k"
proof -
  have n: "nat k \<le> 28" "int (nat k) = k" using assms(4,5) by simp_all
  have y: "year ((next_day ^^ nat k) d) = (if month d = 12 \<and> 31 < day d + k then year d + 1 else year d)"
    using funpow_next_day_place[OF assms(1) n(1)] unfolding n(2) by (simp split: if_splits)
  have "add_days d k = (if 1 \<le> year ((next_day ^^ nat k) d) \<and> year ((next_day ^^ nat k) d) \<le> 9999
                        then Inr ((next_day ^^ nat k) d) else Inl OverflowError)"
    using assms(4) unfolding add_days_def by (simp add: Let_def)
  thus ?thesis unfolding y passes_last_day_def using assms(2,3) by auto
qed

lemma daily_exact:
  assumes now: "valid_dt now" and t: "get_time sd = Inr (h, mi)" "0 \<le> h" "h \<le> 23" "0 \<le> mi" "mi \<le> 59"
  shows "case calculate_next_execution ''daily'' sd now of
           Inr t \<Rightarrow> dt_less now t \<and> \<not> no_instant ''daily'' sd now
         | Inl e \<Rightarrow> no_instant ''daily'' sd now \<and> e = OverflowError"
proof -
  define nr where "nr = at_time now h mi"
  have md: "valid_md now" and y: "1 \<le> year now" "year now \<le> 9999"
    using now by (simp_all add: valid_dt_md) (simp_all add: valid_dt_def valid_date_def)
  have rep: "dt_replace now None None None (Some h) (Some mi) (Some 0) (Some 0) = Inr nr"
    unfolding nr_def at_time_def using md y t(2-) by (rule set_time_of_day)
  have calc: "calculate_next_execution ''daily'' sd now = (if dt_le nr now then add_days nr 1 else Inr nr)"
    unfolding calculate_next_execution_def by (simp add: t(1) rep)
  have ni: "no_instant ''daily'' sd now \<longleftrightarrow> dt_le nr now \<and> passes_last_day now 1"
    unfolding no_instant_def nr_def by (simp add: t(1))
  show ?thesis
  proof (cases "dt_le nr now")
    case False
    hence "dt_less now nr" unfolding dt_le_def dt_less_def nr_def at_time_def
      using now by (cases now) (auto simp: valid_dt_def)
    thus ?thesis unfolding calc ni using False by simp
  next
    case True
    have v: "valid_md nr" "1 \<le> year nr" "year nr \<le> 9999"
      using md y unfolding nr_def at_time_def valid_md_def by simp_all
    have one: "(1::int) \<le> 1" "(1::int) \<le> 28" "(1::int) \<le> 30" by simp_all
    from add_days_pos[OF v one(1) one(3)]
    have pos: "case add_days nr 1 of Inr r \<Rightarrow> date_less nr r | Inl e \<Rightarrow> e = OverflowError"
      by (auto split: sum.splits)
    have p: "passes_last_day nr 1 = passes_last_day now 1"
      unfolding passes_last_day_def nr_def at_time_def by simp
    from add_days_raises[OF v one(1) one(2)]
    have r: "(\<exists>e. add_days nr 1 = Inl e) \<longleftrightarrow> passes_last_day now 1" unfolding p .
    have lt: "date_less nr r \<Longrightarrow> dt_less now r" for r
      by (rule date_less_imp_dt_less) (simp add: date_less_def nr_def at_time_def)
    show ?thesis
    proof (cases "add_days nr 1")
      case (Inl e)
      with pos r show ?thesis unfolding calc ni using True by auto
    next
      case (Inr x)
      with pos r lt show ?thesis unfolding calc ni using True by auto
    qed
  qed
qed

lemma weekly_exact:
  assumes now: "valid_dt now" and t: "get_time sd = Inr (h, mi)" "0 \<le> h" "h \<le> 23" "0 \<le> mi" "mi \<le> 59"
    and dow: "1 \<le> get_default (sd_day_of_week sd) 1" "get_default (sd_day_of_week sd) 1 \<le> 7"
  shows "case calculate_next_execution ''weekly'' sd now of
           Inr t \<Rightarrow> dt_less now t \<and> \<not> no_instant ''weekly'' sd now
         | Inl e \<Rightarrow> no_instant ''weekly'' sd now \<and> e = OverflowError"
proof -
  define k where "k = days_ahead sd now"
  have md: "valid_md now" and y: "1 \<le> year now" "year now \<le> 9999"
    using now by (simp_all add: valid_dt_md) (simp_all add: valid_dt_def valid_date_def)
  have k: "1 \<le> k" "k \<le> 30" "k \<le> 28"
    using dow weekday_range[of now] unfolding k_def days_ahead_def by auto
  have calc: "calculate_next_execution ''weekly'' sd now =
      (case add_days now k of Inl e \<Rightarrow> Inl e
       | Inr next_run \<Rightarrow> dt_replace next_run None None None (Some h) (Some mi) (Some 0) (Some 0))"
    unfolding calculate_next_execution_def k_def days_ahead_def by (simp add: t(1) Let_def)
  have ni: "no_instant ''weekly'' sd now \<longleftrightarrow> passes_last_day now k"
    unfolding no_instant_def k_def by simp
  have r: "(\<exists>e. add_days now k = Inl e) \<longleftrightarrow> passes_last_day now k"
    by (rule add_days_raises[OF md y k(1) k(3)])
  show ?thesis
  proof (cases "add_days now k")
    case (Inl e)
    with add_days_pos[OF md y k(1,2)] r show ?thesis unfolding calc ni by auto
  next
    case (Inr x)
    with add_days_pos[OF md y k(1,2)] have x: "date_less now x" "valid_md x" "1 \<le> year x" "year x \<le> 9999"
      by simp_all
    define res where "res = \<lparr>year = year x, month = month x, day = day x, hour = h, minute = mi,
                          second = 0, microsecond = 0\<rparr>"
    have "dt_replace x None None None (Some h) (Some mi) (Some 0) (Some 0) = Inr res"
      unfolding res_def using x(2-) t(2-) by (rule set_time_of_day)
    moreover have "date_less now res" using x(1) unfolding date_less_def res_def by simp
    moreover have "\<not> passes_last_day now k" using r Inr by auto
    ultimately show ?thesis unfolding calc Inr ni by (simp add: date_less_imp_dt_less)
  qed
qed

lemma monthly_unfold:
  assumes now: "valid_dt now" and t: "get_time sd = Inr (h, mi)" "0 \<le> h" "h \<le> 23" "0 \<le> mi" "mi \<le> 59"
    and dm: "get_default (sd_day_of_month sd) 1 = dm" "1 \<le> dm" "dm \<le> 31"
  shows "calculate_next_execution ''monthly'' sd now =
     (if days_in_month (year now) (month now) < dm then Inl ValueError
      else if \<not> dt_le (monthly_candidate now dm h mi) now then Inr (monthly_candidate now dm h mi)
      else if month now = 12 then
        (if year now = 9999 then Inl ValueError
         else Inr ((monthly_candidate now dm h mi)\<lparr>year := year now + 1, month := 1\<rparr>))
      else if days_in_month (year now) (month now + 1) < dm then Inl ValueError
      else Inr ((monthly_candidate now dm h mi)\<lparr>month := month now + 1\<rparr>))"
proof -
  have v: "1 \<le> year now" "year now \<le> 9999" "1 \<le> month now" "month now \<le> 12"
    using now unfolding valid_dt_def valid_date_def by simp_all
  have first: "dt_replace now None None (Some dm) (Some h) (Some mi) (Some 0) (Some 0) =
      (if days_in_month (year now) (month now) < dm then Inl ValueError
       else Inr (monthly_candidate now dm h mi))"
    unfolding dt_replace_def mk_datetime_def valid_date_def valid_time_def monthly_candidate_def
    using v t(2-) dm(2) by auto
  have jan: "dt_replace (monthly_candidate now dm h mi) (Some (year now + 1)) (Some 1) None None None None None =
      (if year now = 9999 then Inl ValueError
       else Inr ((monthly_candidate now dm h mi)\<lparr>year := year now + 1, month := 1\<rparr>))"
    unfolding dt_replace_def mk_datetime_def valid_date_def valid_time_def monthly_candidate_def
    using v t(2-) dm(2,3) by (auto simp: days_in_month_def)
  have nxt: "month now \<noteq> 12 \<Longrightarrow>
      dt_replace (monthly_candidate now dm h mi) None (Some (month now + 1)) None None None None None =
      (if days_in_month (year now) (month now + 1) < dm then Inl ValueError
       else Inr ((monthly_candidate now dm h mi)\<lparr>month := month now + 1\<rparr>))"
    unfolding dt_replace_def mk_datetime_def valid_date_def valid_time_def monthly_candidate_def
    using v t(2-) dm(2) by auto
  show ?thesis
    unfolding calculate_next_execution_def
    by (simp add: t(1) dm(1) first jan nxt Let_def)
qed

lemma monthly_exact:
  assumes now: "valid_dt now" and t: "get_time sd = Inr (h, mi)" "0 \<le> h" "h \<le> 23" "0 \<le> mi" "mi \<le> 59"
    and dm: "1 \<le> get_default (sd_day_of_month sd) 1" "get_default (sd_day_of_month sd) 1 \<le> 31"
  shows "case calculate_next_execution ''monthly'' sd now of
           Inr t \<Rightarrow> dt_less now t \<and> \<not> no_instant ''monthly'' sd now
         | Inl e \<Rightarrow> no_instant ''monthly'' sd now \<and> e = ValueError"
proof -
  define dm where "dm = get_default (sd_day_of_month sd) 1"
  define c where "c = monthly_candidate now dm h mi"
  have c: "year c = year now" "month c = month now" unfolding c_def monthly_candidate_def by simp_all
  have a: "\<not> dt_le c now \<Longrightarrow> dt_less now c"
    unfolding dt_le_def dt_less_def using c by (cases c; cases now) auto
  have b: "dt_less now (c\<lparr>year := year now + 1, month := 1\<rparr>)" unfolding dt_less_def by simp
  have d: "dt_less now (c\<lparr>month := month now + 1\<rparr>)" unfolding dt_less_def using c by simp
  have ni: "no_instant ''monthly'' sd now \<longleftrightarrow>
      days_in_month (year now) (month now) < dm
      \<or> (dt_le c now \<and> (if month now = 12 then year now = 9999
                          else days_in_month (year now) (month now + 1) < dm))"
    unfolding no_instant_def monthly_raises_def c_def dm_def by (simp add: t(1))
  show ?thesis
    unfolding monthly_unfold[OF now t dm_def[symmetric] dm[folded dm_def]] c_def[symmetric] ni
    using a b d by simp
qed

section \<open>The recurrence calculators: results\<close>

lemma weekday_wed: "weekday (at 2024 1 3 10 0) = 2"
  by (simp add: weekday_def toordinal_def at_def days_before_year_def days_before_month_def is_leap_def)

lemma add_one_day: "add_days (at 2024 1 3 10 0) 1 = Inr (at 2024 1 4 10 0)"
  by (simp add: add_days_def at_def next_day_def days_in_month_def)

lemma weekly_wed_value:
  "calculate_next_execution ''weekly'' weekly_wed_data (at 2024 1 3 10 0) = Inr (at 2024 1 4 9 0)"
proof -
  have t: "get_time weekly_wed_data = Inr (9, 0)"
    by (simp add: get_time_def weekly_wed_data_def empty_data_def)
  have d: "get_default (sd_day_of_week weekly_wed_data) 1 = 3"
    by (simp add: get_default_def weekly_wed_data_def empty_data_def)
  have r: "dt_replace (at 2024 1 4 10 0) None None None (Some 9) (Some 0) (Some 0) (Some 0) = Inr (at 2024 1 4 9 0)"
    by (simp add: dt_replace_def mk_datetime_def valid_date_def valid_time_def at_def days_in_month_def)
  show ?thesis
    unfolding calculate_next_execution_def
    by (simp add: t d weekday_wed add_one_day r)
qed


lemma calculators_agree:
  "kind \<noteq> ''once'' \<Longrightarrow>
   calculate_next_execution_time (sch\<lparr>schedule_type := kind, schedule_data := Some sd\<rparr>) now
     = calculate_next_execution kind sd now"
  unfolding calculate_next_execution_time_def calculate_next_execution_def get_default_def
  by simp

lemma sample_schedule_fields:
  "schedule_type (sample_schedule kind sd q c) = kind"
  "schedule_data (sample_schedule kind sd q c) = Some sd"
  "is_active (sample_schedule kind sd q c)"
  "content_queue (sample_schedule kind sd q c) = Some q"
  "current_index (sample_schedule kind sd q c) = c"
  by (simp_all add: sample_schedule_def)

lemma sample_schedule_calc:
  "kind \<noteq> ''once'' \<Longrightarrow>
   calculate_next_execution_time (sample_schedule kind sd q c) now = calculate_next_execution kind sd now"
  using calculators_agree[where kind = kind and sch = "sample_schedule kind sd q c" and sd = sd and now = now]
  by (simp add: sample_schedule_def)

text \<open>
  Claim C4, as the code has it. For every kind among daily, weekly and monthly, every
  valid recurrence parameters and every instant \<open>now\<close>, a calculator either returns an
  instant strictly later than \<open>now\<close> or raises, and it raises on exactly these
  inputs: a monthly schedule (\<^verbatim>\<open>ValueError\<close>) whose day does not exist in the
  month of \<open>now\<close>, or whose instant in that month is not ahead while the day does not
  exist in the next month (after December 9999 there is none); a daily or weekly
  schedule (\<^verbatim>\<open>OverflowError\<close>) whose result would fall after 31 December 9999. The
  two calculators agree on these kinds.
\<close>

theorem next_execution_after_now_or_raises:
  assumes "valid_dt now"
    and "kind = ''daily'' \<or> kind = ''weekly'' \<or> kind = ''monthly''"
    and "valid_params kind sd"
  shows "(case calculate_next_execution kind sd now of
            Inr t \<Rightarrow> dt_less now t \<and> \<not> no_instant kind sd now
          | Inl e \<Rightarrow> no_instant kind sd now
                     \<and> e = (if kind = ''monthly'' then ValueError else OverflowError))
         \<and> calculate_next_execution_time (sch\<lparr>schedule_type := kind, schedule_data := Some sd\<rparr>) now
             = calculate_next_execution kind sd now"
proof -
  from assms(3) have "valid_time_of_day sd" unfolding valid_params_def by simp
  then obtain h mi where t: "get_time sd = Inr (h, mi)" "0 \<le> h" "h \<le> 23" "0 \<le> mi" "mi \<le> 59"
    by (rule valid_time_of_dayE)
  have "kind \<noteq> ''once''" using assms(2) by auto
  hence agree: "calculate_next_execution_time (sch\<lparr>schedule_type := kind, schedule_data := Some sd\<rparr>) now
             = calculate_next_execution kind sd now"
    by (rule calculators_agree)
  from assms(2) consider "kind = ''daily''" | "kind = ''weekly''" | "kind = ''monthly''" by blast
  then have "case calculate_next_execution kind sd now of
            Inr t \<Rightarrow> dt_less now t \<and> \<not> no_instant kind sd now
          | Inl e \<Rightarrow> no_instant kind sd now
                     \<and> e = (if kind = ''monthly'' then ValueError else OverflowError)"
  proof cases
    case 1
    from daily_exact[OF assms(1) t] show ?thesis unfolding 1 by (simp split: sum.splits)
  next
    case 2
    with assms(3) have "1 \<le> get_default (sd_day_of_week sd) 1" "get_default (sd_day_of_week sd) 1 \<le> 7"
      unfolding valid_params_def by simp_all
    from weekly_exact[OF assms(1) t this] show ?thesis unfolding 2 by (simp split: sum.splits)
  next
    case 3
    with assms(3) have "1 \<le> get_default (sd_day_of_month sd) 1" "get_default (sd_day_of_month sd) 1 \<le> 31"
      unfolding valid_params_def by simp_all
    from monthly_exact[OF assms(1) t this] show ?thesis unfolding 3 by (simp split: sum.splits)
  qed
  with agree show ?thesis by (rule_tac conjI)
qed

lemma valid_wed: "valid_dt (at 2024 1 3 10 0)"
  by (simp add: valid_dt_def valid_date_def valid_time_def at_def days_in_month_def)

lemma valid_weekly_wed: "valid_params ''weekly'' weekly_wed_data"
  by (simp add: valid_params_def valid_time_of_day_def get_time_def weekly_wed_data_def
      empty_data_def get_default_def)

lemma valid_monthly_31: "valid_params ''monthly'' monthly_31_data"
  by (simp add: valid_params_def valid_time_of_day_def get_time_def monthly_31_data_def
      empty_data_def get_default_def)

lemma valid_april: "valid_dt (at 2023 4 15 12 0)"
  by (simp add: valid_dt_def valid_date_def valid_time_def at_def days_in_month_def)

lemma april_has_no_31: "no_instant ''monthly'' monthly_31_data (at 2023 4 15 12 0)"
  by (simp add: no_instant_def monthly_raises_def get_time_def get_default_def monthly_31_data_def
      empty_data_def at_def days_in_month_def)

text \<open>
  The theorem at the weekly schedule above, on Wednesday 3 January 2024 at 10:00, and
  at a monthly schedule for day 31 on 15 April 2023.
\<close>

theorem next_execution_after_now_or_raises_witness:
  "valid_dt (at 2024 1 3 10 0) \<and> valid_params ''weekly'' weekly_wed_data
   \<and> calculate_next_execution ''weekly'' weekly_wed_data (at 2024 1 3 10 0) = Inr (at 2024 1 4 9 0)
   \<and> dt_less (at 2024 1 3 10 0) (at 2024 1 4 9 0)
   \<and> \<not> no_instant ''weekly'' weekly_wed_data (at 2024 1 3 10 0)
   \<and> valid_dt (at 2023 4 15 12 0) \<and> valid_params ''monthly'' monthly_31_data
   \<and> no_instant ''monthly'' monthly_31_data (at 2023 4 15 12 0)
   \<and> calculate_next_execution ''monthly'' monthly_31_data (at 2023 4 15 12 0) = Inl ValueError"
proof -
  have k: "''weekly'' = ''daily'' \<or> ''weekly'' = ''weekly'' \<or> ''weekly'' = ''monthly''" by simp
  have m: "''monthly'' = ''daily'' \<or> ''monthly'' = ''weekly'' \<or> ''monthly'' = ''monthly''" by simp
  from next_execution_after_now_or_raises[OF valid_wed k valid_weekly_wed, of undefined]
  have a: "dt_less (at 2024 1 3 10 0) (at 2024 1 4 9 0)
           \<and> \<not> no_instant ''weekly'' weekly_wed_data (at 2024 1 3 10 0)"
    unfolding weekly_wed_value by simp
  from next_execution_after_now_or_raises[OF valid_april m valid_monthly_31, of undefined] april_has_no_31
  have b: "calculate_next_execution ''monthly'' monthly_31_data (at 2023 4 15 12 0) = Inl ValueError"
    by (auto split: sum.splits)
  show ?thesis using valid_wed valid_weekly_wed weekly_wed_value a valid_april valid_monthly_31
      april_has_no_31 b by simp
qed

text \<open>
  Claim C4 fails as stated: day 31 is a valid day of the month, and on 15 April 2023 at
  12:00 both calculators raise \<^verbatim>\<open>ValueError\<close> for it, so no instant later than
  \<open>now\<close> is computed.
\<close>

theorem monthly_computes_no_instant:
  "valid_dt (at 2023 4 15 12 0) \<and> valid_params ''monthly'' monthly_31_data
   \<and> calculate_next_execution ''monthly'' monthly_31_data (at 2023 4 15 12 0) = Inl ValueError
   \<and> calculate_next_execution_time (sample_schedule ''monthly'' monthly_31_data [item_a] 0)
        (at 2023 4 15 12 0) = Inl ValueError"
proof -
  have t: "get_time monthly_31_data = Inr (9, 0)"
    "get_default (sd_day_of_month monthly_31_data) 1 = 31"
    by (simp_all add: get_time_def get_default_def monthly_31_data_def empty_data_def)
  have f: "year (at 2023 4 15 12 0) = 2023" "month (at 2023 4 15 12 0) = 4" "days_in_month 2023 4 = 30"
    by (simp_all add: at_def days_in_month_def)
  have a: "calculate_next_execution ''monthly'' monthly_31_data (at 2023 4 15 12 0) = Inl ValueError"
    using monthly_unfold[OF valid_april t(1) _ _ _ _ t(2)] by (simp add: f)
  show ?thesis using valid_april valid_monthly_31 a by (simp add: sample_schedule_calc)
qed

text \<open>
  Claim C5. A weekly schedule with \<^verbatim>\<open>day_of_week = 3\<close> and time 09:00, asked on
  Wednesday 3 January 2024 at 10:00. \<^verbatim>\<open>weekday()\<close> numbers Wednesday 2, so
  \<^verbatim>\<open>days_ahead\<close> is 1 and both calculators answer Thursday 4 January 09:00, not the
  following Wednesday 10 January 09:00.
\<close>

theorem weekly_wednesday_gives_thursday:
  "weekday (at 2024 1 3 10 0) = 2
   \<and> calculate_next_execution ''weekly'' weekly_wed_data (at 2024 1 3 10 0) = Inr (at 2024 1 4 9 0)
   \<and> calculate_next_execution_time (sample_schedule ''weekly'' weekly_wed_data [item_a] 0) (at 2024 1 3 10 0)
        = Inr (at 2024 1 4 9 0)
   \<and> weekday (at 2024 1 4 9 0) = 3
   \<and> weekday (at 2024 1 10 9 0) = 2"
proof -
  have a: "calculate_next_execution_time (sample_schedule ''weekly'' weekly_wed_data [item_a] 0) (at 2024 1 3 10 0)
        = Inr (at 2024 1 4 9 0)"
    by (simp add: sample_schedule_calc weekly_wed_value)
  have b: "weekday (at 2024 1 4 9 0) = 3"
    by (simp add: weekday_def toordinal_def at_def days_before_year_def days_before_month_def is_leap_def)
  have c: "weekday (at 2024 1 10 9 0) = 2"
    by (simp add: weekday_def toordinal_def at_def days_before_year_def days_before_month_def is_leap_def)
  show ?thesis using weekday_wed weekly_wed_value a b c by simp
qed

subsection \<open>Custom schedules\<close>

lemma add_hours_one:
  assumes "valid_dt now"
  shows "add_hours now 1 = one_hour_later now"
proof -
  have h: "0 \<le> hour now" "hour now \<le> 23" and y: "1 \<le> year now" "year now \<le> 9999"
    using assms unfolding valid_dt_def valid_time_def valid_date_def by simp_all
  show ?thesis
  proof (cases "hour now < 23")
    case True
    hence "(hour now + 1) mod 24 = hour now + 1" "(hour now + 1) div 24 = 0" using h by simp_all
    thus ?thesis unfolding add_hours_def add_days_def one_hour_later_def using True y by simp
  next
    case False
    hence "hour now = 23" using h by simp
    hence "(hour now + 1) mod 24 = 0" "(hour now + 1) div 24 = 1" by simp_all
    moreover have "1 \<le> year (next_day (now\<lparr>hour := 0\<rparr>))"
      using y unfolding next_day_def by simp
    ultimately show ?thesis unfolding add_hours_def add_days_def one_hour_later_def using False by simp
  qed
qed

lemma custom_unfold:
  "calculate_next_execution ''custom'' sd now = add_hours now 1"
  "calculate_next_execution_time (sch\<lparr>schedule_type := ''custom''\<rparr>) now = add_hours now 1"
  unfolding calculate_next_execution_def calculate_next_execution_time_def by simp_all

lemma one_hour_later_returns:
  assumes "year now < 9999"
  shows "\<exists>t. one_hour_later now = Inr t \<and> dt_less now t"
proof (cases "hour now < 23")
  case True
  thus ?thesis unfolding one_hour_later_def dt_less_def by simp
next
  case False
  have "year (next_day (now\<lparr>hour := 0\<rparr>)) \<le> year now + 1" unfolding next_day_def by simp
  moreover have "date_less now (next_day (now\<lparr>hour := 0\<rparr>))"
    using date_less_next_day[of "now\<lparr>hour := 0\<rparr>"] unfolding date_less_def next_day_def
    by (simp split: if_splits)
  ultimately show ?thesis unfolding one_hour_later_def using False assms
    by (simp add: date_less_imp_dt_less)
qed

text \<open>
  Claim C8, as the code has it. A custom schedule is never parsed: whatever its
  expression, both calculators return one hour after \<open>now\<close>, the placeholder of
  their last branch. No error for invalid recurrence parameters exists; the only
  exception is \<^verbatim>\<open>OverflowError\<close> when the hour added leaves year 9999.
\<close>

theorem custom_returns_one_hour_later:
  assumes "valid_dt now"
  shows "calculate_next_execution ''custom'' sd now = one_hour_later now
       \<and> calculate_next_execution_time (sch\<lparr>schedule_type := ''custom''\<rparr>) now = one_hour_later now
       \<and> (year now < 9999 \<longrightarrow> (\<exists>t. one_hour_later now = Inr t \<and> dt_less now t))"
  using add_hours_one[OF assms] one_hour_later_returns[of now] by (simp add: custom_unfold)

lemma one_hour_after_wed: "one_hour_later (at 2024 1 3 10 0) = Inr (at 2024 1 3 11 0)"
  by (simp add: one_hour_later_def at_def)

text \<open>The theorem on Wednesday 3 January 2024 at 10:00.\<close>

theorem custom_returns_one_hour_later_witness:
  "valid_dt (at 2024 1 3 10 0)
   \<and> calculate_next_execution ''custom'' custom_data (at 2024 1 3 10 0) = Inr (at 2024 1 3 11 0)"
  using custom_returns_one_hour_later[OF valid_wed, of custom_data undefined] valid_wed
  by (simp add: one_hour_after_wed)

text \<open>
  Claim C8 fails as stated: a custom schedule whose expression is the text
  \<^verbatim>\<open>every full moon\<close> gets 11:00 when asked at 10:00, from both calculators.
\<close>

theorem custom_expression_is_ignored:
  "sd_other custom_data = [(''cron'', ''every full moon'')]
   \<and> calculate_next_execution ''custom'' custom_data (at 2024 1 3 10 0) = Inr (at 2024 1 3 11 0)
   \<and> calculate_next_execution_time (sample_schedule ''custom'' custom_data [item_a] 0) (at 2024 1 3 10 0)
        = Inr (at 2024 1 3 11 0)"
proof -
  have "sd_other custom_data = [(''cron'', ''every full moon'')]"
    by (simp add: custom_data_def empty_data_def)
  moreover have "calculate_next_execution ''custom'' custom_data (at 2024 1 3 10 0) = Inr (at 2024 1 3 11 0)"
    by (simp add: custom_unfold add_hours_one[OF valid_wed] one_hour_after_wed)
  ultimately show ?thesis by (simp add: sample_schedule_calc)
qed

subsection \<open>Monthly schedules\<close>






subsection \<open>The clock is read inside the calculators\<close>




section \<open>The content-queue cursor\<close>

lemma neg_mod_shift:
  fixes c L :: int
  assumes "- L \<le> c" "c < 0"
  shows "c mod L = c + L"
proof -
  have "(c + L) mod L = c mod L" by simp
  moreover have "(c + L) mod L = c + L" using assms by (intro mod_pos_pos_trivial) auto
  ultimately show ?thesis by simp
qed

lemma advance_empty: "advance [] cursor = Inr None"
  by (simp add: advance_def)

lemma advance_reset:
  assumes "queue \<noteq> []" "int (length queue) \<le> cursor"
  shows "advance queue cursor = Inr (Some (queue ! 0, 0, 1 mod int (length queue)))"
  using assms by (simp add: advance_def py_getitem_def)

lemma advance_in_range:
  assumes "queue \<noteq> []" "- int (length queue) \<le> cursor" "cursor < int (length queue)"
  shows "advance queue cursor =
         Inr (Some (queue ! nat (cursor mod int (length queue)), cursor, (cursor + 1) mod int (length queue)))"
proof (cases "cursor < 0")
  case True
  with assms(2) have "cursor mod int (length queue) = cursor + int (length queue)"
    by (rule_tac neg_mod_shift)
  thus ?thesis using assms True by (simp add: advance_def py_getitem_def)
next
  case False
  hence "cursor mod int (length queue) = cursor" using assms(3) by simp
  thus ?thesis using assms False by (simp add: advance_def py_getitem_def)
qed

lemma advance_total:
  assumes "queue \<noteq> []" "- int (length queue) \<le> cursor"
  obtains item idx nxt where "advance queue cursor = Inr (Some (item, idx, nxt))"
    "0 \<le> nxt" "nxt < int (length queue)"
proof (cases "cursor < int (length queue)")
  case True
  have "0 < int (length queue)" using assms(1) by simp
  hence "0 \<le> (cursor + 1) mod int (length queue)" "(cursor + 1) mod int (length queue) < int (length queue)"
    by simp_all
  with advance_in_range[OF assms True] that show ?thesis by blast
next
  case False
  have "0 < int (length queue)" using assms(1) by simp
  hence "0 \<le> 1 mod int (length queue)" "1 mod int (length queue) < int (length queue)"
    by simp_all
  moreover have "int (length queue) \<le> cursor" using False by simp
  ultimately show ?thesis using advance_reset[OF assms(1)] that by blast
qed

text \<open>
  Claim C7, as the code has it. For a queue of length \<open>L \<ge> 1\<close> and a cursor from
  \<open>- L\<close> on, the step returns an item and a next cursor in \<open>[0, L)\<close>. A cursor
  below \<open>L\<close> reads \<open>queue[cursor mod L]\<close> and stores \<open>(cursor + 1) mod L\<close>; a
  cursor of \<open>L\<close> or more is reset to 0, so the step reads \<open>queue[0]\<close> and stores
  \<open>1 mod L\<close>. An empty queue is skipped without indexing.
\<close>

theorem cursor_advance:
  assumes "queue \<noteq> []" and "- int (length queue) \<le> cursor"
  shows "\<exists>item idx nxt. advance queue cursor = Inr (Some (item, idx, nxt))
           \<and> 0 \<le> nxt \<and> nxt < int (length queue)
           \<and> (cursor < int (length queue) \<longrightarrow>
                 item = queue ! nat (cursor mod int (length queue))
                 \<and> nxt = (cursor + 1) mod int (length queue))
           \<and> (int (length queue) \<le> cursor \<longrightarrow> item = queue ! 0 \<and> nxt = 1 mod int (length queue))
           \<and> advance ([] :: 'a list) cursor = Inr None"
proof -
  from advance_total[OF assms] obtain item idx nxt
    where a: "advance queue cursor = Inr (Some (item, idx, nxt))" "0 \<le> nxt" "nxt < int (length queue)"
    by blast
  have "item = queue ! nat (cursor mod int (length queue)) \<and> nxt = (cursor + 1) mod int (length queue)"
    if "cursor < int (length queue)"
    using advance_in_range[OF assms that] a(1) by simp
  moreover have "item = queue ! 0 \<and> nxt = 1 mod int (length queue)" if "int (length queue) \<le> cursor"
    using advance_reset[OF assms(1) that] a(1) by simp
  ultimately show ?thesis using a advance_empty by blast
qed

lemma advance_two_items: "advance [item_a, item_b] 1 = Inr (Some (item_b, 1, 0))"
  by (simp add: advance_def py_getitem_def)

lemma advance_beyond: "advance [item_a, item_b, item_c] 10 = Inr (Some (item_a, 0, 1))"
  by (simp add: advance_def py_getitem_def)

text \<open>
  The theorem on a queue of two items at cursor 1 (the round-robin example: item 1,
  then cursor 0) and on a queue of three items at cursor 10.
\<close>

theorem cursor_advance_witness:
  "[item_a, item_b] \<noteq> [] \<and> - int (length [item_a, item_b]) \<le> 1
   \<and> advance [item_a, item_b] 1 = Inr (Some (item_b, 1, 0))
   \<and> [item_a, item_b] ! nat (1 mod int (length [item_a, item_b])) = item_b
   \<and> (1 + 1) mod int (length [item_a, item_b]) = 0
   \<and> int (length [item_a, item_b, item_c]) \<le> 10
   \<and> advance [item_a, item_b, item_c] 10 = Inr (Some (item_a, 0, 1))"
proof -
  have n: "[item_a, item_b] \<noteq> []" "- int (length [item_a, item_b]) \<le> 1" by simp_all
  have m: "[item_a, item_b, item_c] \<noteq> []" "- int (length [item_a, item_b, item_c]) \<le> 10" by simp_all
  from cursor_advance[OF n] cursor_advance[OF m] advance_two_items advance_beyond
  show ?thesis by simp
qed

text \<open>
  Claim C7 fails as stated: on a queue of three items, cursor 10 reads item 0 and
  stores 1, where \<open>queue[10 mod 3]\<close> is item 1 and \<open>(10 + 1) mod 3\<close> is 2; and
  cursor \<open>- 4\<close> raises \<^verbatim>\<open>IndexError\<close>.
\<close>

theorem cursor_beyond_queue_resets:
  "advance [item_a, item_b, item_c] 10 = Inr (Some (item_a, 0, 1))
   \<and> [item_a, item_b, item_c] ! nat (10 mod int (length [item_a, item_b, item_c])) = item_b
   \<and> (10 + 1) mod int (length [item_a, item_b, item_c]) = 2
   \<and> item_a \<noteq> item_b
   \<and> advance [item_a, item_b, item_c] (- 4) = Inl IndexError"
proof -
  have "advance [item_a, item_b, item_c] (- 4) = Inl IndexError"
    by (simp add: advance_def py_getitem_def)
  moreover have "item_a \<noteq> item_b" by (simp add: item_a_def item_b_def)
  ultimately show ?thesis using advance_beyond by simp
qed

section \<open>Executing a schedule: results\<close>

lemma calc_reads_type_and_data:
  assumes "schedule_type a = schedule_type b" "schedule_data a = schedule_data b"
  shows "calculate_next_execution_time a now = calculate_next_execution_time b now"
  unfolding calculate_next_execution_time_def assms by (rule refl)

lemma calc_ignores_cursor:
  "calculate_next_execution_time (sch\<lparr>current_index := n, last_executed := l\<rparr>) now
     = calculate_next_execution_time sch now"
  by (rule calc_reads_type_and_data) simp_all

lemma with_post_fields:
  "posts (with_post d sch c now) = posts d @ [new_post d sch c now]"
  "schedules (with_post d sch c now) = schedules d"
  by (simp_all add: with_post_def)

lemma execute_schedule_inactive:
  assumes "schedules d sid = Some sch" "\<not> is_active sch"
  shows "execute_schedule d sid n1 n2 n3 = (Skipped ''Schedule not found or inactive'', d)"
  using assms by (simp add: execute_schedule_def)

lemma execute_schedule_run:
  assumes "schedules d sid = Some sch" "is_active sch"
    and "advance (or_empty (content_queue sch)) (current_index sch) = Inr (Some (c, idx, nxt))"
  shows "execute_schedule d sid n1 n2 n3 =
     (case calculate_next_execution_time sch n3 of
        Inl e \<Rightarrow> (Raised e, with_post d sch c n1)
      | Inr t \<Rightarrow>
          (Success sid (post_seq d) idx t,
           (with_post d sch c n1)\<lparr>schedules := (schedules d)(sid \<mapsto>
              sch\<lparr>current_index := nxt, last_executed := Some n2, next_execution := Some t\<rparr>)\<rparr>))"
  using assms
  by (simp add: execute_schedule_def Let_def calc_ignores_cursor with_post_def new_post_def
      split: sum.splits)

lemma execute_schedule_after:
  assumes "schedules d sid = Some sch" "is_active sch"
    and "advance (or_empty (content_queue sch)) (current_index sch) = Inr (Some (c, idx, nxt))"
  shows "posts (snd (execute_schedule d sid n1 n2 n3)) = posts d @ [new_post d sch c n1]"
    and "\<exists>sch'. schedules (snd (execute_schedule d sid n1 n2 n3)) sid = Some sch'
           \<and> is_active sch' \<and> content_queue sch' = content_queue sch
           \<and> schedule_type sch' = schedule_type sch
           \<and> (current_index sch' = current_index sch \<or> current_index sch' = nxt)"
  unfolding execute_schedule_run[OF assms] using assms(1,2)
  by (simp_all add: with_post_fields split: sum.splits)

lemma once_calc:
  assumes "schedule_type sch = ''once''"
  shows "calculate_next_execution_time sch now = add_hours now 1"
  using assms by (simp add: calculate_next_execution_time_def)

text \<open>
  Claim C2, as the code has it. \<^verbatim>\<open>execute_schedule\<close> has no guard against a
  second delivery: for an active schedule with content (and a cursor from minus the
  queue length on), every delivery materializes one post, so two deliveries of the same
  tick leave two posts, whatever the clock reads.
\<close>

theorem redelivery_materializes_again:
  assumes "schedules d sid = Some sch" and "is_active sch"
    and "or_empty (content_queue sch) \<noteq> []"
    and "- int (length (or_empty (content_queue sch))) \<le> current_index sch"
  shows "length (posts (snd (execute_schedule d sid n1 n2 n3))) = length (posts d) + 1
       \<and> length (posts (snd (execute_schedule (snd (execute_schedule d sid n1 n2 n3)) sid m1 m2 m3)))
           = length (posts d) + 2"
proof -
  let ?q = "or_empty (content_queue sch)"
  from advance_total[OF assms(3,4)] obtain c idx nxt
    where a: "advance ?q (current_index sch) = Inr (Some (c, idx, nxt))" "0 \<le> nxt" "nxt < int (length ?q)"
    by blast
  let ?d1 = "snd (execute_schedule d sid n1 n2 n3)"
  have p1: "posts ?d1 = posts d @ [new_post d sch c n1]"
    by (rule execute_schedule_after(1)[OF assms(1,2) a(1)])
  from execute_schedule_after(2)[OF assms(1,2) a(1), of n1 n2 n3] obtain sch'
    where s: "schedules ?d1 sid = Some sch'" "is_active sch'" "content_queue sch' = content_queue sch"
      "current_index sch' = current_index sch \<or> current_index sch' = nxt"
    by blast
  have q': "or_empty (content_queue sch') \<noteq> []" using assms(3) s(3) by simp
  have c': "- int (length (or_empty (content_queue sch'))) \<le> current_index sch'"
    using s(3,4) assms(4) a(2) by auto
  from advance_total[OF q' c'] obtain c2 idx2 nxt2
    where a2: "advance (or_empty (content_queue sch')) (current_index sch') = Inr (Some (c2, idx2, nxt2))"
    by blast
  have p2: "posts (snd (execute_schedule ?d1 sid m1 m2 m3)) = posts ?d1 @ [new_post ?d1 sch' c2 m1]"
    by (rule execute_schedule_after(1)[OF s(1,2) a2])
  show ?thesis unfolding p2 p1 by simp
qed

lemma sample_db_lookup: "schedules (sample_db sch) 7 = Some sch" "posts (sample_db sch) = []"
  by (simp_all add: sample_db_def)

lemma sample_queue: "or_empty (content_queue (sample_schedule kind sd q c)) = q"
  by (simp add: sample_schedule_def or_empty_def)

lemma daily_default_value:
  "calculate_next_execution ''daily'' empty_data (at 2024 1 3 10 0) = Inr (at 2024 1 4 9 0)"
proof -
  have t: "get_time empty_data = Inr (9, 0)" by (simp add: get_time_def empty_data_def)
  have r: "dt_replace (at 2024 1 3 10 0) None None None (Some 9) (Some 0) (Some 0) (Some 0) = Inr (at 2024 1 3 9 0)"
    by (simp add: dt_replace_def mk_datetime_def valid_date_def valid_time_def at_def days_in_month_def)
  have l: "dt_le (at 2024 1 3 9 0) (at 2024 1 3 10 0)" by (simp add: dt_le_def dt_less_def at_def)
  have a: "add_days (at 2024 1 3 9 0) 1 = Inr (at 2024 1 4 9 0)"
    by (simp add: add_days_def at_def next_day_def days_in_month_def)
  show ?thesis unfolding calculate_next_execution_def by (simp add: t r l a)
qed

lemma daily_first_run:
  "schedules (snd (execute_schedule daily_db 7 (at 2024 1 3 10 0) (at 2024 1 3 10 0) (at 2024 1 3 10 0))) 7
     = Some ((sample_schedule ''daily'' empty_data [item_a, item_b] 0)
               \<lparr>current_index := 1, last_executed := Some (at 2024 1 3 10 0),
                 next_execution := Some (at 2024 1 4 9 0)\<rparr>)"
proof -
  let ?sch = "sample_schedule ''daily'' empty_data [item_a, item_b] 0"
  have a: "advance (or_empty (content_queue ?sch)) (current_index ?sch) = Inr (Some (item_a, 0, 1))"
    by (simp add: sample_schedule_fields or_empty_def advance_def py_getitem_def)
  have c: "calculate_next_execution_time ?sch (at 2024 1 3 10 0) = Inr (at 2024 1 4 9 0)"
    by (simp add: sample_schedule_calc daily_default_value)
  show ?thesis
    unfolding daily_db_def execute_schedule_run[OF sample_db_lookup(1) sample_schedule_fields(3) a] c
    by simp
qed

text \<open>
  The theorem on a daily schedule with two items, delivered twice with the clock at
  the same instant.
\<close>

theorem redelivery_materializes_again_witness:
  "schedules daily_db 7 = Some (sample_schedule ''daily'' empty_data [item_a, item_b] 0)
   \<and> is_active (sample_schedule ''daily'' empty_data [item_a, item_b] 0)
   \<and> length (posts (snd (execute_schedule daily_db 7
                            (at 2024 1 3 10 0) (at 2024 1 3 10 0) (at 2024 1 3 10 0)))) = 1
   \<and> length (posts (snd (execute_schedule
                            (snd (execute_schedule daily_db 7
                                    (at 2024 1 3 10 0) (at 2024 1 3 10 0) (at 2024 1 3 10 0)))
                            7 (at 2024 1 3 10 0) (at 2024 1 3 10 0) (at 2024 1 3 10 0)))) = 2"
proof -
  let ?sch = "sample_schedule ''daily'' empty_data [item_a, item_b] 0"
  let ?t = "at 2024 1 3 10 0"
  have 1: "schedules daily_db 7 = Some ?sch" by (simp add: daily_db_def sample_db_lookup)
  have 2: "is_active ?sch" by (rule sample_schedule_fields)
  have 3: "or_empty (content_queue ?sch) \<noteq> []" by (simp add: sample_queue)
  have 4: "- int (length (or_empty (content_queue ?sch))) \<le> current_index ?sch"
    by (simp add: sample_queue sample_schedule_fields)
  have 5: "posts daily_db = []" by (simp add: daily_db_def sample_db_lookup)
  from redelivery_materializes_again[OF 1 2 3 4, of ?t ?t ?t ?t ?t ?t] 1 2 5
  show ?thesis by simp
qed

text \<open>
  Claim C2 fails as stated: the same tick of a daily schedule delivered twice at
  10:00 on 3 January 2024 leaves two posts, the first from item \<open>a\<close> and the second
  from item \<open>b\<close>.
\<close>

theorem redelivered_tick_makes_two_posts:
  "map title (posts (snd (execute_schedule
                            (snd (execute_schedule daily_db 7
                                    (at 2024 1 3 10 0) (at 2024 1 3 10 0) (at 2024 1 3 10 0)))
                            7 (at 2024 1 3 10 0) (at 2024 1 3 10 0) (at 2024 1 3 10 0)))) = [''a'', ''b'']"
proof -
  let ?sch = "sample_schedule ''daily'' empty_data [item_a, item_b] 0"
  let ?t = "at 2024 1 3 10 0"
  let ?sch1 = "?sch\<lparr>current_index := 1, last_executed := Some ?t,
                 next_execution := Some (at 2024 1 4 9 0)\<rparr>"
  let ?d1 = "snd (execute_schedule daily_db 7 ?t ?t ?t)"
  have a: "advance (or_empty (content_queue ?sch)) (current_index ?sch) = Inr (Some (item_a, 0, 1))"
    by (simp add: sample_schedule_fields or_empty_def advance_def py_getitem_def)
  have s0: "schedules daily_db 7 = Some ?sch" by (simp add: daily_db_def sample_db_lookup)
  have p1: "posts ?d1 = posts daily_db @ [new_post daily_db ?sch item_a ?t]"
    by (rule execute_schedule_after(1)[OF s0 sample_schedule_fields(3) a])
  have act: "is_active ?sch1" by (simp add: sample_schedule_fields)
  have a1: "advance (or_empty (content_queue ?sch1)) (current_index ?sch1) = Inr (Some (item_b, 1, 0))"
    by (simp add: sample_schedule_def or_empty_def advance_def py_getitem_def)
  have p2: "posts (snd (execute_schedule ?d1 7 ?t ?t ?t))
            = posts ?d1 @ [new_post ?d1 ?sch1 item_b ?t]"
    by (rule execute_schedule_after(1)[OF daily_first_run act a1])
  have t: "title (new_post d sch item_a now) = ''a''" "title (new_post d sch item_b now) = ''b''" for d sch now
    by (simp_all add: new_post_def get_str_def item_a_def item_b_def)
  show ?thesis unfolding p2 p1 by (simp add: t daily_db_def sample_db_lookup)
qed

lemma once_first_run:
  "schedules (snd (execute_schedule once_db 7 (at 2024 1 3 10 0) (at 2024 1 3 10 1) (at 2024 1 3 10 2))) 7
     = Some once_after"
proof -
  let ?sch = "sample_schedule ''once'' once_data [item_a] 0"
  have a: "advance (or_empty (content_queue ?sch)) (current_index ?sch) = Inr (Some (item_a, 0, 0))"
    by (simp add: sample_schedule_fields or_empty_def advance_def py_getitem_def)
  have v: "valid_dt (at 2024 1 3 10 2)"
    by (simp add: valid_dt_def valid_date_def valid_time_def at_def days_in_month_def)
  have h: "one_hour_later (at 2024 1 3 10 2) = Inr (at 2024 1 3 11 2)"
    by (simp add: one_hour_later_def at_def)
  have c: "calculate_next_execution_time ?sch (at 2024 1 3 10 2) = Inr (at 2024 1 3 11 2)"
    using once_calc[of ?sch "at 2024 1 3 10 2"]
    by (simp add: sample_schedule_fields add_hours_one[OF v] h)
  show ?thesis
    unfolding once_db_def once_after_def
      execute_schedule_run[OF sample_db_lookup(1) sample_schedule_fields(3) a] c
    by simp
qed

text \<open>
  Claim C1 asks that a once schedule, executed once, ends with
  \<^verbatim>\<open>is_active\<close> false and \<^verbatim>\<open>next_execution\<close> null, and that no later tick
  materializes a post. The code does otherwise. A once schedule with one item is
  executed on 3 January 2024 while the clock reads 10:00, 10:01 and 10:02:
  \<^verbatim>\<open>calculate_next_execution_time\<close> has no branch for once and falls to its last
  one, so the schedule is stored still active with \<^verbatim>\<open>next_execution\<close> at 11:02. The
  scan finds it due again at 11:02, and a second tick, here at 10:05, materializes a
  second post.
\<close>

theorem once_schedule_runs_again:
  "schedule_type (sample_schedule ''once'' once_data [item_a] 0) = ''once''
   \<and> schedules (snd (execute_schedule once_db 7 (at 2024 1 3 10 0) (at 2024 1 3 10 1) (at 2024 1 3 10 2))) 7
        = Some once_after
   \<and> is_active once_after
   \<and> next_execution once_after = Some (at 2024 1 3 11 2)
   \<and> is_due once_after (at 2024 1 3 11 2)
   \<and> length (posts (snd (execute_schedule once_db 7
                            (at 2024 1 3 10 0) (at 2024 1 3 10 1) (at 2024 1 3 10 2)))) = 1
   \<and> length (posts (snd (execute_schedule
                            (snd (execute_schedule once_db 7
                                    (at 2024 1 3 10 0) (at 2024 1 3 10 1) (at 2024 1 3 10 2)))
                            7 (at 2024 1 3 10 5) (at 2024 1 3 10 5) (at 2024 1 3 10 5)))) = 2"
proof -
  let ?sch = "sample_schedule ''once'' once_data [item_a] 0"
  let ?d1 = "snd (execute_schedule once_db 7 (at 2024 1 3 10 0) (at 2024 1 3 10 1) (at 2024 1 3 10 2))"
  let ?t = "at 2024 1 3 10 5"
  have a: "advance (or_empty (content_queue ?sch)) (current_index ?sch) = Inr (Some (item_a, 0, 0))"
    by (simp add: sample_schedule_fields or_empty_def advance_def py_getitem_def)
  have s0: "schedules once_db 7 = Some ?sch" by (simp add: once_db_def sample_db_lookup)
  have p1: "posts ?d1 = posts once_db @ [new_post once_db ?sch item_a (at 2024 1 3 10 0)]"
    by (rule execute_schedule_after(1)[OF s0 sample_schedule_fields(3) a])
  have s1: "schedules ?d1 7 = Some once_after" by (rule once_first_run)
  have act: "is_active once_after" by (simp add: once_after_def sample_schedule_fields)
  have nx: "next_execution once_after = Some (at 2024 1 3 11 2)" by (simp add: once_after_def)
  have due: "is_due once_after (at 2024 1 3 11 2)" by (simp add: is_due_def act nx dt_le_def)
  have a1: "advance (or_empty (content_queue once_after)) (current_index once_after)
            = Inr (Some (item_a, 0, 0))"
    by (simp add: once_after_def sample_schedule_def or_empty_def advance_def py_getitem_def)
  have p2: "posts (snd (execute_schedule ?d1 7 ?t ?t ?t))
            = posts ?d1 @ [new_post ?d1 once_after item_a ?t]"
    by (rule execute_schedule_after(1)[OF s1 act a1])
  have e: "posts once_db = []" by (simp add: once_db_def sample_db_lookup)
  have ty: "schedule_type ?sch = ''once''" by (rule sample_schedule_fields)
  show ?thesis unfolding p2 p1 using s1 act nx due ty by (simp add: e)
qed

section \<open>Posting to several platforms: results\<close>

lemma status_of_result: "pr_status (platform_result t) = ''success'' \<longleftrightarrow> succeeded t"
  by (cases "snd t") (simp_all add: platform_result_def succeeded_def)

lemma success_count_map: "success_count (map platform_result ts) = length (filter succeeded ts)"
  by (induction ts) (simp_all add: success_count_def status_of_result)

lemma find_after_replace:
  assumes "find (\<lambda>q. post_id q = pid) ps = Some p" "post_id p' = pid"
  shows "find (\<lambda>q. post_id q = pid) (map (\<lambda>q. if post_id q = post_id p' then p' else q) ps) = Some p'"
  using assms by (induction ps) (auto split: if_splits)

lemma get_put_post:
  assumes "get_post d pid = Some p" "post_id p' = pid"
  shows "get_post (put_post d p') pid = Some p'"
  using find_after_replace[OF assms[unfolded get_post_def]]
  by (simp add: get_post_def put_post_def)

lemma get_post_id: "get_post d pid = Some p \<Longrightarrow> post_id p = pid"
  unfolding get_post_def by (auto simp: find_Some_iff)

lemma dispatch_stores:
  assumes "get_post d pid = Some p"
  shows "get_post (snd (post_to_multiple_platforms d pid targets now)) pid =
     Some (if 0 < length (filter succeeded targets)
           then p\<lparr>status := aggregate_status (map platform_result targets) (length targets),
                   posted_at := Some now, posting_results := Some (map platform_result targets)\<rparr>
           else p\<lparr>status := aggregate_status (map platform_result targets) (length targets),
                   posting_results := Some (map platform_result targets)\<rparr>)"
  using get_post_id[OF assms]
  by (simp add: post_to_multiple_platforms_def assms Let_def success_count_map get_put_post[OF assms])

lemma aggregate_cases:
  "aggregate_status (map platform_result ts) (length ts) =
     (if ts \<noteq> [] \<and> (\<forall>t\<in>set ts. succeeded t) then ''posted''
      else if \<forall>t\<in>set ts. \<not> succeeded t then ''failed'' else ''partially_posted'')"
proof -
  have all: "length (filter succeeded ts) = length ts" if "\<forall>t\<in>set ts. succeeded t"
    using that by simp
  have none: "length (filter succeeded ts) = 0" if "\<forall>t\<in>set ts. \<not> succeeded t"
    using that by simp
  have some: "0 < length (filter succeeded ts)" if "\<not> (\<forall>t\<in>set ts. \<not> succeeded t)"
    using that by (simp add: filter_empty_conv)
  have less: "length (filter succeeded ts) \<noteq> length ts" if "\<not> (\<forall>t\<in>set ts. succeeded t)"
    using that length_filter_less[of _ ts succeeded] by fastforce
  show ?thesis
    unfolding aggregate_status_def success_count_map
    using all none some less by (cases "ts = []") auto
qed

lemma aggregate_permuted:
  assumes "mset ts' = mset ts"
  shows "aggregate_status (map platform_result ts') (length ts')
       = aggregate_status (map platform_result ts) (length ts)"
proof -
  have "mset (filter succeeded ts') = mset (filter succeeded ts)" using assms by simp
  hence "length (filter succeeded ts') = length (filter succeeded ts)" by (rule mset_eq_length)
  moreover have "length ts' = length ts" using assms by (rule mset_eq_length)
  ultimately show ?thesis unfolding aggregate_status_def success_count_map by simp
qed

lemma dispatch_status:
  assumes "get_post d pid = Some p"
  shows "post_status (snd (post_to_multiple_platforms d pid targets now)) pid
       = Some (aggregate_status (map platform_result targets) (length targets))"
  unfolding post_status_def dispatch_stores[OF assms] by simp

text \<open>
  Claim C3. For a post dispatched to one or more targets, the status stored is
  \<^verbatim>\<open>posted\<close> when every target succeeded, \<^verbatim>\<open>failed\<close> when none did and
  \<^verbatim>\<open>partially_posted\<close> otherwise, and it is the same for every permutation of the
  targets and their outcomes.
\<close>

theorem aggregate_status_reduction:
  assumes "targets \<noteq> []" and "get_post d pid = Some p"
  shows "post_status (snd (post_to_multiple_platforms d pid targets now)) pid =
           Some (if \<forall>t\<in>set targets. succeeded t then ''posted''
                 else if \<forall>t\<in>set targets. \<not> succeeded t then ''failed''
                 else ''partially_posted'')
       \<and> (mset targets' = mset targets \<longrightarrow>
            post_status (snd (post_to_multiple_platforms d pid targets' now)) pid
              = post_status (snd (post_to_multiple_platforms d pid targets now)) pid)"
  unfolding dispatch_status[OF assms(2)]
  using assms(1) aggregate_permuted[of targets' targets] by (simp add: aggregate_cases)

text \<open>
  Claim C10. With an empty list of platforms the dispatch records no result, returns
  the counts 0 and 0, stores the status \<^verbatim>\<open>failed\<close> and leaves
  \<^verbatim>\<open>posted_at\<close> as it was.
\<close>

theorem empty_targets_reduce_to_failed:
  assumes "get_post d pid = Some p"
  shows "fst (post_to_multiple_platforms d pid [] now) = Inr ([], 0, 0)
       \<and> get_post (snd (post_to_multiple_platforms d pid [] now)) pid
           = Some (p\<lparr>status := ''failed'', posting_results := Some []\<rparr>)
       \<and> post_status (snd (post_to_multiple_platforms d pid [] now)) pid = Some ''failed''
       \<and> map_option posted_at (get_post (snd (post_to_multiple_platforms d pid [] now)) pid)
           = Some (posted_at p)"
proof -
  have "fst (post_to_multiple_platforms d pid [] now) = Inr ([], 0, 0)"
    by (simp add: post_to_multiple_platforms_def assms Let_def success_count_def)
  moreover have "aggregate_status (map platform_result []) (length ([] :: (string \<times> attempt) list)) = ''failed''"
    by (simp add: aggregate_status_def success_count_def)
  ultimately show ?thesis
    unfolding post_status_def dispatch_stores[OF assms] by simp
qed


lemma post_db_lookup: "get_post post_db 1 = Some draft_post"
  by (simp add: get_post_def post_db_def draft_post_def)

text \<open>
  The theorem on three targets: all posted, one of three rejected (in two orders), and
  none posted.
\<close>

theorem aggregate_status_reduction_witness:
  "get_post post_db 1 = Some draft_post
   \<and> post_status (snd (post_to_multiple_platforms post_db 1
         [(''twitter'', Posted None), (''facebook'', Posted None), (''youtube'', Posted None)]
         (at 2024 1 3 10 0))) 1 = Some ''posted''
   \<and> post_status (snd (post_to_multiple_platforms post_db 1
         [(''twitter'', Posted None), (''facebook'', Failed ''rejected''), (''youtube'', Posted None)]
         (at 2024 1 3 10 0))) 1 = Some ''partially_posted''
   \<and> post_status (snd (post_to_multiple_platforms post_db 1
         [(''facebook'', Failed ''rejected''), (''youtube'', Posted None), (''twitter'', Posted None)]
         (at 2024 1 3 10 0))) 1 = Some ''partially_posted''
   \<and> post_status (snd (post_to_multiple_platforms post_db 1
         [(''twitter'', Failed ''rejected''), (''facebook'', NoAccount), (''youtube'', Failed ''rejected'')]
         (at 2024 1 3 10 0))) 1 = Some ''failed''"
proof -
  let ?ok = "[(''twitter'', Posted None), (''facebook'', Posted None), (''youtube'', Posted None)]"
  let ?mix = "[(''twitter'', Posted None), (''facebook'', Failed ''rejected''), (''youtube'', Posted None)]"
  let ?mix' = "[(''facebook'', Failed ''rejected''), (''youtube'', Posted None), (''twitter'', Posted None)]"
  let ?bad = "[(''twitter'', Failed ''rejected''), (''facebook'', NoAccount), (''youtube'', Failed ''rejected'')]"
  have ne: "?ok \<noteq> []" "?mix \<noteq> []" "?bad \<noteq> []" by simp_all
  have perm: "mset ?mix' = mset ?mix" by (simp add: add_mset_commute)
  from aggregate_status_reduction[OF ne(1) post_db_lookup, of "at 2024 1 3 10 0" ?ok]
  have a: "post_status (snd (post_to_multiple_platforms post_db 1 ?ok (at 2024 1 3 10 0))) 1 = Some ''posted''"
    by (simp add: succeeded_def)
  from aggregate_status_reduction[OF ne(2) post_db_lookup, of "at 2024 1 3 10 0" ?mix'] perm
  have b: "post_status (snd (post_to_multiple_platforms post_db 1 ?mix (at 2024 1 3 10 0))) 1 = Some ''partially_posted''"
    "post_status (snd (post_to_multiple_platforms post_db 1 ?mix' (at 2024 1 3 10 0))) 1 = Some ''partially_posted''"
    by (simp_all add: succeeded_def)
  from aggregate_status_reduction[OF ne(3) post_db_lookup, of "at 2024 1 3 10 0" ?bad]
  have c: "post_status (snd (post_to_multiple_platforms post_db 1 ?bad (at 2024 1 3 10 0))) 1 = Some ''failed''"
    by (simp add: succeeded_def)
  show ?thesis using post_db_lookup a b c by simp
qed

text \<open>
  The theorem on a scheduled post that was never posted: \<^verbatim>\<open>posted_at\<close> stays
  null.
\<close>

theorem empty_targets_reduce_to_failed_witness:
  "get_post post_db 1 = Some draft_post
   \<and> fst (post_to_multiple_platforms post_db 1 [] (at 2024 1 3 10 0)) = Inr ([], 0, 0)
   \<and> post_status (snd (post_to_multiple_platforms post_db 1 [] (at 2024 1 3 10 0))) 1 = Some ''failed''
   \<and> map_option posted_at (get_post (snd (post_to_multiple_platforms post_db 1 [] (at 2024 1 3 10 0))) 1)
        = Some None"
proof -
  have "posted_at draft_post = None" by (simp add: draft_post_def)
  with empty_targets_reduce_to_failed[OF post_db_lookup, of "at 2024 1 3 10 0"] post_db_lookup
  show ?thesis by simp
qed

end
